theory Spec2Isabelle
  imports Main
begin

section \<open>Data model\<close>

text \<open>
  The portal keeps thread metadata in a PostgreSQL table \<open>threads\<close> and thread content in
  a MongoDB collection of \<open>Post\<close> documents. Both stores are modelled as lists in their
  natural order; a handler is a function from the stores to a result and the new stores.

  Identifiers: \<open>threads.id\<close> is filled by \<open>gen_random_uuid()\<close> and a comment's \<open>_id\<close> by
  Mongoose's ObjectId generator. Both generators are modelled as counters of the state that
  never hand out a value twice. User and category identifiers come from tables that no
  handler below writes to, and stay strings. Identifiers of a request are taken as
  well-formed values of these types, with one exception: the \<open>parentCommentId\<close> of a
  \<open>createComment\<close> body, which is cast in a query and may be refused (\<open>id_text\<close> below).

  Not modelled: the activity log (\<open>logActivity\<close> writes to a collection of its own, detached,
  with its failure swallowed), attachments, the \<open>createdAt\<close>/\<open>updatedAt\<close> stamps that
  Mongoose maintains in documents, the \<open>lowercase\<close>/\<open>trim\<close> setters of \<open>tags\<close> (a tag is
  taken as the setter leaves it), and the connection pool (\<open>createThread\<close> releases its
  client on every exit). A handler runs from its first to its last store call without
  another handler in between.
\<close>

type_synonym user_id = string
type_synonym category_id = string
type_synonym thread_id = nat
type_synonym object_id = nat
type_synonym timestamp = nat

datatype role = User | Moderator | Admin

text \<open>\<open>req.user\<close>, as the \<open>authenticate\<close> middleware attaches it.\<close>

record req_user =
  u_id :: user_id
  u_username :: string
  u_role :: role

datatype category_status = Active | Archived

text \<open>A row of \<open>threads\<close> (setupDatabase.js).\<close>

record thread_row =
  t_id :: thread_id
  t_title :: string
  t_slug :: string
  t_category_id :: category_id
  t_author_id :: user_id
  is_pinned :: bool
  is_locked :: bool
  view_count :: int
  reply_count :: int
  last_reply_at :: "timestamp option"
  last_reply_by :: "user_id option"
  created_at :: timestamp
  updated_at :: timestamp

text \<open>\<open>CommentSchema\<close> and \<open>PostSchema\<close> (models/Post.js).\<close>

record comment =
  c_id :: object_id
  c_authorId :: user_id
  c_authorUsername :: string
  c_content :: string
  c_parentCommentId :: "object_id option"
  c_isEdited :: bool
  c_editedAt :: "timestamp option"
  c_isDeleted :: bool
  c_deletedAt :: "timestamp option"
  c_upvotes :: int
  c_upvotedBy :: "user_id list"

record original_post =
  op_authorId :: user_id
  op_authorUsername :: string
  op_content :: string
  op_isEdited :: bool
  op_editedAt :: "timestamp option"
  op_upvotes :: int
  op_upvotedBy :: "user_id list"

record post =
  p_threadId :: thread_id
  originalPost :: original_post
  comments :: "comment list"
  p_isLocked :: bool
  p_viewCount :: int
  p_tags :: "string list"

record db =
  categories :: "category_id \<rightharpoonup> category_status"
  threads :: "thread_row list"
  posts :: "post list"
  uuid_gen :: nat
  oid_gen :: nat

subsection \<open>Errors and replies\<close>

text \<open>
  A rejected store call carries the driver's error object; \<open>AppError\<close> is the class of
  middleware/errorHandler.js, with its message and status code.
\<close>

record store_error =
  err_name :: string
  err_message :: string
  err_code :: "string option"
  err_errors :: "string list"

datatype error = AppError string nat | StoreError store_error

datatype payload =
    NoData
  | CommentData comment
  | VoteData int bool
  | ThreadCreated thread_id string string category_id user_id timestamp
  | ThreadUpdated thread_id user_id string "post option"
  | ThreadRead thread_row post
  | PinData bool
  | LockData bool

text \<open>\<open>successResponse(res, data, message, statusCode)\<close> of utils/helpers.js.\<close>

record reply =
  r_status :: nat
  r_message :: string
  r_data :: payload

definition successResponse :: "payload \<Rightarrow> string \<Rightarrow> nat \<Rightarrow> reply" where
  "successResponse d m c = \<lparr>r_status = c, r_message = m, r_data = d\<rparr>"

subsection \<open>The environment of a call\<close>

text \<open>
  Every awaited store call of a handler may reject. The environment names, per call site,
  the error it rejects with (\<open>None\<close>: the call goes through), gives the clock and the slug
  that \<open>slugify\<close> drew (it appends a random suffix), and says whether a rejected
  \<open>Post.create\<close> had reached the collection before its error was reported. A rejected call
  of any other site changes nothing.

  What a handler decides from a row or a document it has read is stated, below, for calls
  whose read goes through: the hypothesis \<open>fails e site = None\<close> names the read.
\<close>

datatype site =
    SelectCategory | GetClient | Begin | InsertThread | CreatePost | Commit | Rollback
  | DeletePost | SelectThread | UpdateTitle | UpdatePost | DeleteRow | TogglePin | ToggleLock
  | IncrementViews | FindPost | FindParent | PushComment | UpdateCounter | SavePost

record env =
  now :: timestamp
  slug :: string
  fails :: "site \<Rightarrow> store_error option"
  written :: bool

section \<open>Store primitives\<close>

text \<open>\<open>SELECT ... FROM threads WHERE id = $1\<close>, first row.\<close>

definition select_thread :: "thread_id \<Rightarrow> thread_row list \<Rightarrow> thread_row option" where
  "select_thread i rows = find (\<lambda>r. t_id r = i) rows"

text \<open>
  \<open>UPDATE threads SET ... WHERE id = $1\<close>: every matching row is rewritten, and the trigger
  \<open>trg_threads_updated_at\<close> stamps it.
\<close>

definition update_thread ::
  "timestamp \<Rightarrow> thread_id \<Rightarrow> (thread_row \<Rightarrow> thread_row) \<Rightarrow> thread_row list \<Rightarrow> thread_row list" where
  "update_thread t i f rows = map (\<lambda>r. if t_id r = i then (f r)\<lparr>updated_at := t\<rparr> else r) rows"

text \<open>Rewrites the first element that satisfies \<open>P\<close>; the list keeps its order and length.\<close>

fun update_first :: "('a \<Rightarrow> bool) \<Rightarrow> ('a \<Rightarrow> 'a) \<Rightarrow> 'a list \<Rightarrow> 'a list" where
  "update_first P f [] = []"
| "update_first P f (x # xs) = (if P x then f x # xs else x # update_first P f xs)"

text \<open>\<open>Model.deleteOne(filter)\<close>: the first matching document goes.\<close>

fun delete_first :: "('a \<Rightarrow> bool) \<Rightarrow> 'a list \<Rightarrow> 'a list" where
  "delete_first P [] = []"
| "delete_first P (x # xs) = (if P x then xs else x # delete_first P xs)"

text \<open>\<open>Post.findOne({ threadId })\<close>.\<close>

definition findOne :: "thread_id \<Rightarrow> post list \<Rightarrow> post option" where
  "findOne i ps = find (\<lambda>p. p_threadId p = i) ps"

text \<open>\<open>post.comments.id(commentId)\<close>: the first subdocument with that \<open>_id\<close>, or null.\<close>

definition comments_id :: "object_id \<Rightarrow> comment list \<Rightarrow> comment option" where
  "comments_id i cs = find (\<lambda>c. c_id c = i) cs"

text \<open>
  \<open>post.save()\<close> writes the loaded document back. The loaded document is the first one of
  its \<open>threadId\<close>, which no handler changes between load and save.
\<close>

definition save :: "post \<Rightarrow> post list \<Rightarrow> post list" where
  "save p ps = update_first (\<lambda>q. p_threadId q = p_threadId p) (\<lambda>_. p) ps"

text \<open>The upper end of PostgreSQL's \<open>INTEGER\<close>, the type of \<open>reply_count\<close>.\<close>

definition int4_max :: int where
  "int4_max = 2147483647"

definition out_of_range :: store_error where
  "out_of_range = \<lparr>err_name = ''error'', err_message = ''integer out of range'',
     err_code = Some ''22003'', err_errors = []\<rparr>"

section \<open>Comment handlers (controllers/commentController.js)\<close>

definition isMod :: "req_user \<Rightarrow> bool" where
  "isMod u = (u_role u \<in> {Moderator, Admin})"

text \<open>
  The \<open>parentCommentId\<close> of a request body. The \<open>createComment\<close> schema of
  middleware/validate.js lets through null and any string that is not empty, so a value
  that is there is a string, and truthy. Mongoose casts it to an ObjectId when it builds the
  query on \<open>comments._id\<close>. The string is modelled as what that cast makes of it: the id
  whose text it is, or a refusal.
\<close>

datatype id_text = WellFormed object_id | Malformed

text \<open>
  The \<open>CastError\<close> that the query rejects with when the cast is refused; nothing is sent
  to the store. \<open>errorHandler\<close> tests its name and replaces its message. Mongoose's message
  also names the refused value and the path, and is cut short here.
\<close>

definition castError :: store_error where
  "castError = \<lparr>err_name = ''CastError'', err_message = ''Cast to ObjectId failed'',
     err_code = None, err_errors = []\<rparr>"

text \<open>The subdocument that the \<open>$push\<close> of \<open>newComment\<close> casts to: the schema's defaults.\<close>

definition newComment :: "object_id \<Rightarrow> req_user \<Rightarrow> string \<Rightarrow> object_id option \<Rightarrow> comment" where
  "newComment i u content parentCommentId =
     \<lparr>c_id = i, c_authorId = u_id u, c_authorUsername = u_username u, c_content = content,
      c_parentCommentId = parentCommentId, c_isEdited = False, c_editedAt = None,
      c_isDeleted = False, c_deletedAt = None, c_upvotes = 0, c_upvotedBy = []\<rparr>"

text \<open>
  \<open>Post.findOne({ threadId, 'comments._id': parentCommentId })\<close>: a document of the thread
  that holds a comment of that id, deleted or not.
\<close>

definition findParent :: "thread_id \<Rightarrow> object_id \<Rightarrow> post list \<Rightarrow> post option" where
  "findParent i pid ps = find (\<lambda>p. p_threadId p = i \<and> pid \<in> c_id ` set (comments p)) ps"

text \<open>The counter update that closes \<open>createComment\<close>.\<close>

definition bump_reply :: "timestamp \<Rightarrow> user_id \<Rightarrow> thread_row \<Rightarrow> thread_row" where
  "bump_reply t u r =
     r\<lparr>reply_count := reply_count r + 1, last_reply_at := Some t, last_reply_by := Some u\<rparr>"

definition createComment_count ::
  "env \<Rightarrow> req_user \<Rightarrow> thread_id \<Rightarrow> comment \<Rightarrow> db \<Rightarrow> (error + reply) \<times> db" where
  "createComment_count e u threadId c s =
     (case fails e UpdateCounter of
        Some x \<Rightarrow> (Inl (StoreError x), s)
      | None \<Rightarrow>
          if \<exists>r \<in> set (threads s). t_id r = threadId \<and> int4_max < reply_count r + 1
          then (Inl (StoreError out_of_range), s)
          else (Inr (successResponse (CommentData c) ''Comment added'' 201),
                s\<lparr>threads := update_thread (now e) threadId (bump_reply (now e) (u_id u)) (threads s)\<rparr>))"

definition createComment_push ::
  "env \<Rightarrow> req_user \<Rightarrow> thread_id \<Rightarrow> string \<Rightarrow> object_id option \<Rightarrow> db \<Rightarrow> (error + reply) \<times> db" where
  "createComment_push e u threadId content parentCommentId s =
     (case fails e PushComment of
        Some x \<Rightarrow> (Inl (StoreError x), s)
      | None \<Rightarrow>
          (case findOne threadId (posts s) of
             None \<Rightarrow> (Inl (AppError ''Thread content not found.'' 404), s)
           | Some p \<Rightarrow>
               let c = newComment (oid_gen s) u content parentCommentId;
                   s' = s\<lparr>posts := save (p\<lparr>comments := comments p @ [c]\<rparr>) (posts s),
                          oid_gen := Suc (oid_gen s)\<rparr>
               in createComment_count e u threadId c s'))"

text \<open>
  \<open>createComment\<close>. The lock is tested first. A \<open>parentCommentId\<close> that is there is
  looked up next: a text that is no ObjectId rejects the lookup with the \<open>CastError\<close>, and
  an ObjectId must be the \<open>_id\<close> of a comment of the thread's document.
\<close>

definition createComment ::
  "env \<Rightarrow> req_user \<Rightarrow> thread_id \<Rightarrow> string \<Rightarrow> id_text option \<Rightarrow> db \<Rightarrow> (error + reply) \<times> db" where
  "createComment e u threadId content parentCommentId s =
     (case fails e SelectThread of
        Some x \<Rightarrow> (Inl (StoreError x), s)
      | None \<Rightarrow>
          (case select_thread threadId (threads s) of
             None \<Rightarrow> (Inl (AppError ''Thread not found.'' 404), s)
           | Some thread \<Rightarrow>
               if is_locked thread
               then (Inl (AppError ''Thread is locked. No new replies allowed.'' 403), s)
               else
                 (case parentCommentId of
                    None \<Rightarrow> createComment_push e u threadId content None s
                  | Some Malformed \<Rightarrow> (Inl (StoreError castError), s)
                  | Some (WellFormed pid) \<Rightarrow>
                      (case fails e FindParent of
                         Some x \<Rightarrow> (Inl (StoreError x), s)
                       | None \<Rightarrow>
                           (case findParent threadId pid (posts s) of
                              None \<Rightarrow> (Inl (AppError ''Parent comment not found.'' 404), s)
                            | Some _ \<Rightarrow>
                                createComment_push e u threadId content (Some pid) s)))))"

text \<open>\<open>updateComment\<close>: the edit applied to the loaded subdocument.\<close>

definition editComment :: "timestamp \<Rightarrow> string \<Rightarrow> comment \<Rightarrow> comment" where
  "editComment t content c = c\<lparr>c_content := content, c_isEdited := True, c_editedAt := Some t\<rparr>"

definition updateComment ::
  "env \<Rightarrow> req_user \<Rightarrow> thread_id \<Rightarrow> object_id \<Rightarrow> string \<Rightarrow> db \<Rightarrow> (error + reply) \<times> db" where
  "updateComment e u threadId commentId content s =
     (case fails e FindPost of
        Some x \<Rightarrow> (Inl (StoreError x), s)
      | None \<Rightarrow>
          (case findOne threadId (posts s) of
             None \<Rightarrow> (Inl (AppError ''Thread not found.'' 404), s)
           | Some p \<Rightarrow>
               (case comments_id commentId (comments p) of
                  None \<Rightarrow> (Inl (AppError ''Comment not found.'' 404), s)
                | Some c \<Rightarrow>
                    if c_isDeleted c then (Inl (AppError ''Comment not found.'' 404), s)
                    else if c_authorId c \<noteq> u_id u \<and> \<not> isMod u
                    then (Inl (AppError ''Permission denied.'' 403), s)
                    else
                      let c' = editComment (now e) content c;
                          p' = p\<lparr>comments :=
                                 update_first (\<lambda>x. c_id x = commentId) (\<lambda>_. c') (comments p)\<rparr>
                      in (case fails e SavePost of
                            Some x \<Rightarrow> (Inl (StoreError x), s)
                          | None \<Rightarrow>
                              (Inr (successResponse (CommentData c') ''Comment updated'' 200),
                               s\<lparr>posts := save p' (posts s)\<rparr>)))))"

text \<open>\<open>deleteComment\<close>: the tombstone written over the loaded subdocument.\<close>

definition tombstone :: "timestamp \<Rightarrow> comment \<Rightarrow> comment" where
  "tombstone t c = c\<lparr>c_isDeleted := True, c_deletedAt := Some t, c_content := ''[deleted]''\<rparr>"

text \<open>\<open>SET reply_count = GREATEST(reply_count - 1, 0)\<close>.\<close>

definition drop_reply :: "thread_row \<Rightarrow> thread_row" where
  "drop_reply r = r\<lparr>reply_count := max (reply_count r - 1) 0\<rparr>"

definition deleteComment_count :: "env \<Rightarrow> thread_id \<Rightarrow> db \<Rightarrow> (error + reply) \<times> db" where
  "deleteComment_count e threadId s =
     (case fails e UpdateCounter of
        Some x \<Rightarrow> (Inl (StoreError x), s)
      | None \<Rightarrow>
          if \<exists>r \<in> set (threads s). t_id r = threadId \<and> reply_count r - 1 < - int4_max - 1
          then (Inl (StoreError out_of_range), s)
          else (Inr (successResponse NoData ''Comment deleted'' 200),
                s\<lparr>threads := update_thread (now e) threadId drop_reply (threads s)\<rparr>))"

definition deleteComment ::
  "env \<Rightarrow> req_user \<Rightarrow> thread_id \<Rightarrow> object_id \<Rightarrow> db \<Rightarrow> (error + reply) \<times> db" where
  "deleteComment e u threadId commentId s =
     (case fails e FindPost of
        Some x \<Rightarrow> (Inl (StoreError x), s)
      | None \<Rightarrow>
          (case findOne threadId (posts s) of
             None \<Rightarrow> (Inl (AppError ''Thread not found.'' 404), s)
           | Some p \<Rightarrow>
               (case comments_id commentId (comments p) of
                  None \<Rightarrow> (Inl (AppError ''Comment not found.'' 404), s)
                | Some c \<Rightarrow>
                    if c_isDeleted c then (Inl (AppError ''Comment not found.'' 404), s)
                    else if c_authorId c \<noteq> u_id u \<and> \<not> isMod u
                    then (Inl (AppError ''Permission denied.'' 403), s)
                    else
                      let p' = p\<lparr>comments :=
                                 update_first (\<lambda>x. c_id x = commentId)
                                   (\<lambda>_. tombstone (now e) c) (comments p)\<rparr>
                      in (case fails e SavePost of
                            Some x \<Rightarrow> (Inl (StoreError x), s)
                          | None \<Rightarrow>
                              deleteComment_count e threadId (s\<lparr>posts := save p' (posts s)\<rparr>)))))"

subsection \<open>Votes\<close>

text \<open>
  \<open>PostSchema.methods.toggleUpvote\<close>: \<open>indexOf\<close> finds the first occurrence, \<open>splice(idx, 1)\<close>
  takes it out, \<open>push\<close> appends. The method ends in \<open>this.save()\<close>, which the handler
  awaits.
\<close>

definition toggle_originalPost :: "user_id \<Rightarrow> original_post \<Rightarrow> original_post" where
  "toggle_originalPost userId x =
     (if userId \<notin> set (op_upvotedBy x)
      then x\<lparr>op_upvotedBy := op_upvotedBy x @ [userId], op_upvotes := op_upvotes x + 1\<rparr>
      else x\<lparr>op_upvotedBy := remove1 userId (op_upvotedBy x), op_upvotes := op_upvotes x - 1\<rparr>)"

definition toggleUpvote :: "env \<Rightarrow> user_id \<Rightarrow> post \<Rightarrow> db \<Rightarrow> (error + post) \<times> db" where
  "toggleUpvote e userId p s =
     (let p' = p\<lparr>originalPost := toggle_originalPost userId (originalPost p)\<rparr>
      in case fails e SavePost of
           Some x \<Rightarrow> (Inl (StoreError x), s)
         | None \<Rightarrow> (Inr p', s\<lparr>posts := save p' (posts s)\<rparr>))"

definition upvoteThread :: "env \<Rightarrow> req_user \<Rightarrow> thread_id \<Rightarrow> db \<Rightarrow> (error + reply) \<times> db" where
  "upvoteThread e u threadId s =
     (case fails e FindPost of
        Some x \<Rightarrow> (Inl (StoreError x), s)
      | None \<Rightarrow>
          (case findOne threadId (posts s) of
             None \<Rightarrow> (Inl (AppError ''Thread not found.'' 404), s)
           | Some p \<Rightarrow>
               (case toggleUpvote e (u_id u) p s of
                  (Inl x, s') \<Rightarrow> (Inl x, s')
                | (Inr p', s') \<Rightarrow>
                    (Inr (successResponse
                            (VoteData (op_upvotes (originalPost p'))
                               (u_id u \<in> set (op_upvotedBy (originalPost p'))))
                            ''Vote recorded'' 200), s'))))"

text \<open>The toggle that \<open>upvoteComment\<close> applies to the loaded subdocument.\<close>

definition toggle_comment :: "user_id \<Rightarrow> comment \<Rightarrow> comment" where
  "toggle_comment userId c =
     (if userId \<notin> set (c_upvotedBy c)
      then c\<lparr>c_upvotedBy := c_upvotedBy c @ [userId], c_upvotes := c_upvotes c + 1\<rparr>
      else c\<lparr>c_upvotedBy := remove1 userId (c_upvotedBy c), c_upvotes := c_upvotes c - 1\<rparr>)"

definition upvoteComment ::
  "env \<Rightarrow> req_user \<Rightarrow> thread_id \<Rightarrow> object_id \<Rightarrow> db \<Rightarrow> (error + reply) \<times> db" where
  "upvoteComment e u threadId commentId s =
     (case fails e FindPost of
        Some x \<Rightarrow> (Inl (StoreError x), s)
      | None \<Rightarrow>
          (case findOne threadId (posts s) of
             None \<Rightarrow> (Inl (AppError ''Thread not found.'' 404), s)
           | Some p \<Rightarrow>
               (case comments_id commentId (comments p) of
                  None \<Rightarrow> (Inl (AppError ''Comment not found.'' 404), s)
                | Some c \<Rightarrow>
                    if c_isDeleted c then (Inl (AppError ''Comment not found.'' 404), s)
                    else
                      let c' = toggle_comment (u_id u) c;
                          p' = p\<lparr>comments :=
                                 update_first (\<lambda>x. c_id x = commentId) (\<lambda>_. c') (comments p)\<rparr>
                      in (case fails e SavePost of
                            Some x \<Rightarrow> (Inl (StoreError x), s)
                          | None \<Rightarrow>
                              (Inr (successResponse
                                      (VoteData (c_upvotes c') (u_id u \<in> set (c_upvotedBy c')))
                                      ''Vote recorded'' 200),
                               s\<lparr>posts := save p' (posts s)\<rparr>)))))"

section \<open>Thread handlers (controllers/threadController.js)\<close>

text \<open>The row that the \<open>INSERT\<close> of \<open>createThread\<close> writes: the column defaults of the table.\<close>

definition newThread :: "env \<Rightarrow> thread_id \<Rightarrow> req_user \<Rightarrow> string \<Rightarrow> category_id \<Rightarrow> thread_row" where
  "newThread e i u title categoryId =
     \<lparr>t_id = i, t_title = title, t_slug = slug e, t_category_id = categoryId,
      t_author_id = u_id u, is_pinned = False, is_locked = False, view_count = 0,
      reply_count = 0, last_reply_at = None, last_reply_by = None,
      created_at = now e, updated_at = now e\<rparr>"

text \<open>The document that \<open>Post.create\<close> writes: the schema's defaults, \<open>tags || []\<close>.\<close>

definition newPost :: "thread_id \<Rightarrow> req_user \<Rightarrow> string \<Rightarrow> string list option \<Rightarrow> post" where
  "newPost i u content tags =
     \<lparr>p_threadId = i,
      originalPost = \<lparr>op_authorId = u_id u, op_authorUsername = u_username u,
        op_content = content, op_isEdited = False, op_editedAt = None, op_upvotes = 0,
        op_upvotedBy = []\<rparr>,
      comments = [], p_isLocked = False, p_viewCount = 0,
      p_tags = (case tags of None \<Rightarrow> [] | Some ts \<Rightarrow> ts)\<rparr>"

text \<open>
  \<open>Post.deleteOne({ threadId: thread?.id })\<close>. When the \<open>INSERT\<close> never returned, \<open>thread\<close>
  is undefined and the filter matches no document (\<open>threadId\<close> is required).
\<close>

fun deleteOne :: "thread_id option \<Rightarrow> post list \<Rightarrow> post list" where
  "deleteOne None ps = ps"
| "deleteOne (Some i) ps = delete_first (\<lambda>p. p_threadId p = i) ps"

text \<open>
  The \<open>try\<close> block of \<open>createThread\<close>. The inserted row stays inside the open transaction,
  so it is handed on and joins the table only after \<open>COMMIT\<close>; the document goes to the
  collection at once. An exit through \<open>catch\<close> carries the error thrown, \<open>thread?.id\<close> and
  the collection as the block left it. In \<open>catch\<close> the \<open>ROLLBACK\<close> is awaited first: when it
  rejects, its error is the one thrown and the delete is never reached. A transaction that
  was not committed leaves no row, whichever way the handler is left.
\<close>

datatype attempt = Committed thread_row "post list" | Thrown store_error "thread_id option" "post list"

definition createThread_try ::
  "env \<Rightarrow> req_user \<Rightarrow> string \<Rightarrow> string \<Rightarrow> category_id \<Rightarrow> string list option \<Rightarrow> db \<Rightarrow> attempt" where
  "createThread_try e u title content categoryId tags s =
     (case fails e Begin of
        Some x \<Rightarrow> Thrown x None (posts s)
      | None \<Rightarrow>
          (case fails e InsertThread of
             Some x \<Rightarrow> Thrown x None (posts s)
           | None \<Rightarrow>
               let thread = newThread e (uuid_gen s) u title categoryId;
                   doc = newPost (t_id thread) u content tags
               in (case fails e CreatePost of
                     Some x \<Rightarrow>
                       Thrown x (Some (t_id thread))
                         (if written e then posts s @ [doc] else posts s)
                   | None \<Rightarrow>
                       (case fails e Commit of
                          Some x \<Rightarrow> Thrown x (Some (t_id thread)) (posts s @ [doc])
                        | None \<Rightarrow> Committed thread (posts s @ [doc])))))"

definition createThread ::
  "env \<Rightarrow> req_user \<Rightarrow> string \<Rightarrow> string \<Rightarrow> category_id \<Rightarrow> string list option \<Rightarrow> db
     \<Rightarrow> (error + reply) \<times> db" where
  "createThread e u title content categoryId tags s =
     (case fails e SelectCategory of
        Some x \<Rightarrow> (Inl (StoreError x), s)
      | None \<Rightarrow>
          if categories s categoryId \<noteq> Some Active
          then (Inl (AppError ''Category not found or inactive.'' 404), s)
          else
            (case fails e GetClient of
               Some x \<Rightarrow> (Inl (StoreError x), s)
             | None \<Rightarrow>
                 (case createThread_try e u title content categoryId tags s of
                    Committed thread ps \<Rightarrow>
                      (Inr (successResponse
                              (ThreadCreated (t_id thread) (t_title thread) (t_slug thread)
                                 (t_category_id thread) (t_author_id thread) (created_at thread))
                              ''Thread created'' 201),
                       s\<lparr>threads := threads s @ [thread], posts := ps,
                         uuid_gen := Suc (uuid_gen s)\<rparr>)
                  | Thrown x i ps \<Rightarrow>
                      let s' = s\<lparr>posts := ps,
                                 uuid_gen := (case i of None \<Rightarrow> uuid_gen s
                                              | Some _ \<Rightarrow> Suc (uuid_gen s))\<rparr>
                      in (case fails e Rollback of
                            Some y \<Rightarrow> (Inl (StoreError y), s')
                          | None \<Rightarrow>
                              (Inl (StoreError x),
                               s'\<lparr>posts := (case fails e DeletePost of
                                               Some _ \<Rightarrow> ps
                                             | None \<Rightarrow> deleteOne i ps)\<rparr>)))))"

text \<open>JavaScript truthiness of an optional string: absent and empty are both false.\<close>

fun truthy :: "string option \<Rightarrow> bool" where
  "truthy None = False"
| "truthy (Some t) = (t \<noteq> [])"

text \<open>The \<open>$set\<close> that \<open>updateThread\<close> builds in \<open>updateFields\<close>.\<close>

definition updateFields :: "timestamp \<Rightarrow> string option \<Rightarrow> string list option \<Rightarrow> post \<Rightarrow> post" where
  "updateFields t content tags p =
     (let p1 = (if truthy content
                then p\<lparr>originalPost := (originalPost p)\<lparr>op_content := the content,
                         op_isEdited := True, op_editedAt := Some t\<rparr>\<rparr>
                else p)
      in case tags of None \<Rightarrow> p1 | Some ts \<Rightarrow> p1\<lparr>p_tags := ts\<rparr>)"

definition updateThread_post ::
  "env \<Rightarrow> thread_row \<Rightarrow> thread_id \<Rightarrow> string option \<Rightarrow> string option \<Rightarrow> string list option \<Rightarrow> db
     \<Rightarrow> (error + reply) \<times> db" where
  "updateThread_post e thread i title content tags s =
     (case fails e UpdatePost of
        Some x \<Rightarrow> (Inl (StoreError x), s)
      | None \<Rightarrow>
          (Inr (successResponse
                  (ThreadUpdated (t_id thread) (t_author_id thread)
                     (if truthy title then the title else t_title thread)
                     (map_option (updateFields (now e) content tags) (findOne i (posts s))))
                  ''Thread updated'' 200),
           s\<lparr>posts := update_first (\<lambda>p. p_threadId p = i) (updateFields (now e) content tags)
                        (posts s)\<rparr>))"

definition updateThread ::
  "env \<Rightarrow> req_user \<Rightarrow> thread_id \<Rightarrow> string option \<Rightarrow> string option \<Rightarrow> string list option \<Rightarrow> db
     \<Rightarrow> (error + reply) \<times> db" where
  "updateThread e u i title content tags s =
     (case fails e SelectThread of
        Some x \<Rightarrow> (Inl (StoreError x), s)
      | None \<Rightarrow>
          (case select_thread i (threads s) of
             None \<Rightarrow> (Inl (AppError ''Thread not found.'' 404), s)
           | Some thread \<Rightarrow>
               if t_author_id thread \<noteq> u_id u \<and> \<not> isMod u
               then (Inl (AppError ''Permission denied.'' 403), s)
               else if truthy title
               then (case fails e UpdateTitle of
                       Some x \<Rightarrow> (Inl (StoreError x), s)
                     | None \<Rightarrow>
                         updateThread_post e thread i title content tags
                           (s\<lparr>threads := update_thread (now e) i
                                           (\<lambda>r. r\<lparr>t_title := the title\<rparr>) (threads s)\<rparr>))
               else updateThread_post e thread i title content tags s))"

definition deleteThread :: "env \<Rightarrow> thread_id \<Rightarrow> db \<Rightarrow> (error + reply) \<times> db" where
  "deleteThread e i s =
     (case fails e SelectThread of
        Some x \<Rightarrow> (Inl (StoreError x), s)
      | None \<Rightarrow>
          (case select_thread i (threads s) of
             None \<Rightarrow> (Inl (AppError ''Thread not found.'' 404), s)
           | Some _ \<Rightarrow>
               (case fails e DeleteRow of
                  Some x \<Rightarrow> (Inl (StoreError x), s)
                | None \<Rightarrow>
                    let s' = s\<lparr>threads := filter (\<lambda>r. t_id r \<noteq> i) (threads s)\<rparr>
                    in (case fails e DeletePost of
                          Some x \<Rightarrow> (Inl (StoreError x), s')
                        | None \<Rightarrow>
                            (Inr (successResponse NoData ''Thread deleted'' 200),
                             s'\<lparr>posts := deleteOne (Some i) (posts s')\<rparr>)))))"

definition pinThread :: "env \<Rightarrow> thread_id \<Rightarrow> db \<Rightarrow> (error + reply) \<times> db" where
  "pinThread e i s =
     (case fails e TogglePin of
        Some x \<Rightarrow> (Inl (StoreError x), s)
      | None \<Rightarrow>
          (case select_thread i (threads s) of
             None \<Rightarrow> (Inl (AppError ''Thread not found.'' 404), s)
           | Some r \<Rightarrow>
               (Inr (successResponse (PinData (\<not> is_pinned r))
                       (if \<not> is_pinned r then ''Thread pinned'' else ''Thread unpinned'') 200),
                s\<lparr>threads := update_thread (now e) i (\<lambda>r. r\<lparr>is_pinned := \<not> is_pinned r\<rparr>)
                               (threads s)\<rparr>)))"

definition lockThread :: "env \<Rightarrow> thread_id \<Rightarrow> db \<Rightarrow> (error + reply) \<times> db" where
  "lockThread e i s =
     (case fails e ToggleLock of
        Some x \<Rightarrow> (Inl (StoreError x), s)
      | None \<Rightarrow>
          (case select_thread i (threads s) of
             None \<Rightarrow> (Inl (AppError ''Thread not found.'' 404), s)
           | Some r \<Rightarrow>
               (Inr (successResponse (LockData (\<not> is_locked r))
                       (if \<not> is_locked r then ''Thread locked'' else ''Thread unlocked'') 200),
                s\<lparr>threads := update_thread (now e) i (\<lambda>r. r\<lparr>is_locked := \<not> is_locked r\<rparr>)
                               (threads s)\<rparr>)))"

text \<open>
  \<open>getThread\<close> reads by slug and bumps \<open>view_count\<close> with a query it does not await: a
  rejection of that query (a store error, or the counter leaving \<open>INTEGER\<close>) changes nothing
  and reaches nobody. The joined author and category columns are left out of the payload.
\<close>

definition getThread :: "env \<Rightarrow> string \<Rightarrow> db \<Rightarrow> (error + reply) \<times> db" where
  "getThread e sl s =
     (case fails e SelectThread of
        Some x \<Rightarrow> (Inl (StoreError x), s)
      | None \<Rightarrow>
          (case find (\<lambda>r. t_slug r = sl) (threads s) of
             None \<Rightarrow> (Inl (AppError ''Thread not found.'' 404), s)
           | Some thread \<Rightarrow>
               let s' = (if fails e IncrementViews \<noteq> None
                           \<or> (\<exists>r \<in> set (threads s). t_id r = t_id thread \<and> int4_max < view_count r + 1)
                         then s
                         else s\<lparr>threads := update_thread (now e) (t_id thread)
                                 (\<lambda>r. r\<lparr>view_count := view_count r + 1\<rparr>) (threads s)\<rparr>)
               in (case fails e FindPost of
                     Some x \<Rightarrow> (Inl (StoreError x), s')
                   | None \<Rightarrow>
                       (case findOne (t_id thread) (posts s') of
                          None \<Rightarrow> (Inl (AppError ''Thread content not found.'' 404), s')
                        | Some p \<Rightarrow>
                            (Inr (successResponse (ThreadRead thread p) ''Success'' 200), s')))))"

section \<open>Error responses (middleware/errorHandler.js)\<close>

record http_response =
  h_status :: nat
  h_success :: bool
  h_message :: string
  h_data :: payload

fun join_comma :: "string list \<Rightarrow> string" where
  "join_comma [] = []"
| "join_comma [x] = x"
| "join_comma (x # y # ys) = x @ '', '' @ join_comma (y # ys)"

text \<open>The fields of the error object that \<open>errorHandler\<close> reads.\<close>

fun statusCode_of :: "error \<Rightarrow> nat option" where
  "statusCode_of (AppError m c) = Some c"
| "statusCode_of (StoreError x) = None"

fun message_of :: "error \<Rightarrow> string" where
  "message_of (AppError m c) = m"
| "message_of (StoreError x) = err_message x"

fun code_of :: "error \<Rightarrow> string option" where
  "code_of (AppError m c) = None"
| "code_of (StoreError x) = err_code x"

fun name_of :: "error \<Rightarrow> string" where
  "name_of (AppError m c) = ''Error''"
| "name_of (StoreError x) = err_name x"

fun errors_of :: "error \<Rightarrow> string list" where
  "errors_of (AppError m c) = []"
| "errors_of (StoreError x) = err_errors x"

text \<open>
  \<open>errorHandler\<close>: the status and message start from the error's own and are overwritten
  by each later test that applies, in the order of the source.
\<close>

definition errorHandler :: "error \<Rightarrow> http_response" where
  "errorHandler err =
     (let r0 = (case statusCode_of err of None \<Rightarrow> 500 | Some c \<Rightarrow> if c = 0 then 500 else c,
                if message_of err = [] then ''Internal Server Error'' else message_of err);
          r1 = (if code_of err = Some ''23505'' then (409, ''Resource already exists.'') else r0);
          r2 = (if code_of err = Some ''23503'' then (400, ''Referenced resource not found.'') else r1);
          r3 = (if code_of err = Some ''23514'' then (400, ''Invalid data provided.'') else r2);
          r4 = (if name_of err = ''ValidationError'' then (400, join_comma (errors_of err)) else r3);
          r5 = (if name_of err = ''CastError'' then (400, ''Invalid ID format.'') else r4);
          r6 = (if name_of err = ''JsonWebTokenError'' then (401, ''Invalid token.'') else r5)
      in \<lparr>h_status = fst r6, h_success = False, h_message = snd r6, h_data = NoData\<rparr>)"

text \<open>
  What the client receives: \<open>asyncHandler\<close> passes a thrown error to \<open>errorHandler\<close>, and a
  returned reply was sent by \<open>successResponse\<close> as \<open>{ success: true, message, ...data }\<close>.
\<close>

fun respond :: "error + reply \<Rightarrow> http_response" where
  "respond (Inl err) = errorHandler err"
| "respond (Inr r) = \<lparr>h_status = r_status r, h_success = True, h_message = r_message r,
                       h_data = r_data r\<rparr>"

section \<open>The portal as a transition system\<close>

datatype request =
    GetThread string
  | CreateThread req_user string string category_id "string list option"
  | UpdateThread req_user thread_id "string option" "string option" "string list option"
  | DeleteThread thread_id
  | PinThread thread_id
  | LockThread thread_id
  | CreateComment req_user thread_id string "id_text option"
  | UpdateComment req_user thread_id object_id string
  | DeleteComment req_user thread_id object_id
  | UpvoteThread req_user thread_id
  | UpvoteComment req_user thread_id object_id

fun handle :: "env \<Rightarrow> request \<Rightarrow> db \<Rightarrow> (error + reply) \<times> db" where
  "handle e (GetThread sl) s = getThread e sl s"
| "handle e (CreateThread u title content categoryId tags) s =
     createThread e u title content categoryId tags s"
| "handle e (UpdateThread u i title content tags) s = updateThread e u i title content tags s"
| "handle e (DeleteThread i) s = deleteThread e i s"
| "handle e (PinThread i) s = pinThread e i s"
| "handle e (LockThread i) s = lockThread e i s"
| "handle e (CreateComment u i content parent) s = createComment e u i content parent s"
| "handle e (UpdateComment u i c content) s = updateComment e u i c content s"
| "handle e (DeleteComment u i c) s = deleteComment e u i c s"
| "handle e (UpvoteThread u i) s = upvoteThread e u i s"
| "handle e (UpvoteComment u i c) s = upvoteComment e u i c s"

text \<open>
  The states the portal can be in: it starts with empty stores, the category controller
  changes the category table only, and every other change is a handler run to its end, on
  any request in any environment.
\<close>

inductive reachable :: "db \<Rightarrow> bool" where
  initial: "reachable \<lparr>categories = cs, threads = [], posts = [], uuid_gen = 0, oid_gen = 0\<rparr>"
| category: "reachable s \<Longrightarrow> reachable (s\<lparr>categories := cs\<rparr>)"
| handled: "reachable s \<Longrightarrow> reachable (snd (handle e r s))"

text \<open>A call replied when it returned through \<open>successResponse\<close> rather than throwing.\<close>

definition replied :: "(error + reply) \<times> db \<Rightarrow> bool" where
  "replied x = (case fst x of Inl _ \<Rightarrow> False | Inr _ \<Rightarrow> True)"

text \<open>Handlers run one after another, each in its own environment.\<close>

fun run :: "(env \<times> request) list \<Rightarrow> db \<Rightarrow> db" where
  "run [] s = s"
| "run ((e, r) # rs) s = run rs (snd (handle e r s))"

text \<open>
  A sequence of calls in which every call replied: the state after the last one, or
  \<open>None\<close> as soon as one call throws.
\<close>

fun run_replied :: "(env \<times> request) list \<Rightarrow> db \<Rightarrow> db option" where
  "run_replied [] s = Some s"
| "run_replied ((e, r) # rs) s =
     (if replied (handle e r s) then run_replied rs (snd (handle e r s)) else None)"

fun is_add :: "thread_id \<Rightarrow> request \<Rightarrow> bool" where
  "is_add i (CreateComment u j content parent) = (j = i)"
| "is_add i _ = False"

fun is_delete :: "thread_id \<Rightarrow> request \<Rightarrow> bool" where
  "is_delete i (DeleteComment u j c) = (j = i)"
| "is_delete i _ = False"

text \<open>
  A parent id resolves in a thread when a document of the thread holds a comment of that
  id, whether the comment is deleted or not.
\<close>

definition resolves :: "thread_id \<Rightarrow> object_id \<Rightarrow> post list \<Rightarrow> bool" where
  "resolves i pid ps = (\<exists>p \<in> set ps. p_threadId p = i \<and> (\<exists>c \<in> set (comments p). c_id c = pid))"

section \<open>Sample data\<close>

text \<open>
  Concrete users, environments and states, for checking the statements below on inputs that
  satisfy their hypotheses. \<open>quiet\<close> is the environment in which no store call rejects.
\<close>

definition alice :: req_user where
  "alice = \<lparr>u_id = ''u-alice'', u_username = ''alice'', u_role = User\<rparr>"

definition bob :: req_user where
  "bob = \<lparr>u_id = ''u-bob'', u_username = ''bob'', u_role = Moderator\<rparr>"

definition carol :: req_user where
  "carol = \<lparr>u_id = ''u-carol'', u_username = ''carol'', u_role = Admin\<rparr>"

definition quiet :: env where
  "quiet = \<lparr>now = 100, slug = ''hello-world-a3f7'', fails = (\<lambda>_. None), written = False\<rparr>"

definition start :: db where
  "start = \<lparr>categories = [''general'' \<mapsto> Active], threads = [], posts = [],
     uuid_gen = 0, oid_gen = 0\<rparr>"

definition hello :: db where
  "hello = run [(quiet, CreateThread alice ''Hello World'' ''A first post body'' ''general'' None)]
             start"

definition locked :: db where
  "locked = run [(quiet, LockThread 0)] hello"

definition talk :: db where
  "talk = run [(quiet, CreateComment bob 0 ''Hi'' None)] hello"

definition voted :: db where
  "voted = run [(quiet, UpvoteThread bob 0), (quiet, UpvoteComment alice 0 0)] talk"

definition buried :: db where
  "buried = run [(quiet, DeleteComment bob 0 0)] talk"

definition bare :: db where
  "bare = hello\<lparr>posts := []\<rparr>"

definition boom :: store_error where
  "boom = \<lparr>err_name = ''Error'', err_message = ''Connection terminated unexpectedly'',
     err_code = None, err_errors = []\<rparr>"

definition counter_down :: env where
  "counter_down = quiet\<lparr>fails := (\<lambda>_. None)(UpdateCounter \<mapsto> boom)\<rparr>"

definition push_down :: env where
  "push_down = quiet\<lparr>fails := (\<lambda>_. None)(PushComment \<mapsto> boom)\<rparr>"

definition two_adds :: "(env \<times> request) list" where
  "two_adds = [(quiet, CreateComment bob 0 ''Hi'' None),
               (quiet, CreateComment carol 0 ''Hello'' (Some (WellFormed 0)))]"

definition one_delete :: "(env \<times> request) list" where
  "one_delete = [(quiet, DeleteComment bob 0 0)]"

definition write_down :: env where
  "write_down = quiet\<lparr>fails := (\<lambda>_. None)(CreatePost \<mapsto> boom)\<rparr>"

definition write_lost :: env where
  "write_lost = quiet\<lparr>fails := (\<lambda>_. None)(CreatePost \<mapsto> boom, DeletePost \<mapsto> boom),
     written := True\<rparr>"

definition later :: db where
  "later = run [(quiet, CreateComment carol 0 ''Who said that?'' (Some (WellFormed 0))),
                (quiet, UpvoteThread carol 0)] buried"

section \<open>Invariants\<close>

text \<open>
  The vote invariant: a stored count is the length of its voter list, and no voter is
  listed twice, so the count is also the size of the voter set.
\<close>

definition votes_ok :: "int \<Rightarrow> user_id list \<Rightarrow> bool" where
  "votes_ok n vs = (n = int (length vs) \<and> distinct vs)"

definition post_votes_ok :: "post \<Rightarrow> bool" where
  "post_votes_ok p =
     (votes_ok (op_upvotes (originalPost p)) (op_upvotedBy (originalPost p))
      \<and> (\<forall>c \<in> set (comments p). votes_ok (c_upvotes c) (c_upvotedBy c)))"

definition all_votes_ok :: "post list \<Rightarrow> bool" where
  "all_votes_ok ps = (\<forall>p \<in> set ps. post_votes_ok p)"

text \<open>No row carries a negative reply count.\<close>

definition counts_ok :: "thread_row list \<Rightarrow> bool" where
  "counts_ok rows = (\<forall>r \<in> set rows. 0 \<le> reply_count r)"

text \<open>
  Identifiers in the stores were handed out by the generators: they lie below the
  counters, no two documents share a thread, and no two comments of a document share an
  id.
\<close>

definition rows_below :: "nat \<Rightarrow> thread_row list \<Rightarrow> bool" where
  "rows_below n rows = (\<forall>r \<in> set rows. t_id r < n)"

definition post_ids_ok :: "nat \<Rightarrow> nat \<Rightarrow> post \<Rightarrow> bool" where
  "post_ids_ok n m p =
     (p_threadId p < n \<and> distinct (map c_id (comments p)) \<and> (\<forall>c \<in> set (comments p). c_id c < m))"

definition docs_ok :: "nat \<Rightarrow> nat \<Rightarrow> post list \<Rightarrow> bool" where
  "docs_ok n m ps = ((\<forall>p \<in> set ps. post_ids_ok n m p) \<and> distinct (map p_threadId ps))"

definition ids_ok :: "db \<Rightarrow> bool" where
  "ids_ok s = (rows_below (uuid_gen s) (threads s) \<and> docs_ok (uuid_gen s) (oid_gen s) (posts s))"

text \<open>
  A comment id is entombed in a thread when every document of the thread holds a comment
  of that id and each such comment is a tombstone: deleted, with the placeholder as its
  body. Both ids have been handed out.
\<close>

definition doc_entombed :: "object_id \<Rightarrow> post \<Rightarrow> bool" where
  "doc_entombed j p =
     (j \<in> c_id ` set (comments p)
      \<and> (\<forall>c \<in> set (comments p). c_id c = j \<longrightarrow> c_isDeleted c \<and> c_content c = ''[deleted]''))"

definition thread_entombed :: "thread_id \<Rightarrow> object_id \<Rightarrow> post list \<Rightarrow> bool" where
  "thread_entombed i j ps = (\<forall>p \<in> set ps. p_threadId p = i \<longrightarrow> doc_entombed j p)"

definition entombed :: "thread_id \<Rightarrow> object_id \<Rightarrow> db \<Rightarrow> bool" where
  "entombed i j s =
     (i < uuid_gen s \<and> j < oid_gen s
      \<and> (\<forall>p \<in> set (posts s). p_threadId p = i \<longrightarrow> doc_entombed j p))"

section \<open>Facts about the store primitives\<close>

lemmas handler_defs =
  createComment_def createComment_push_def createComment_count_def updateComment_def
  deleteComment_def deleteComment_count_def toggleUpvote_def upvoteThread_def upvoteComment_def
  createThread_def createThread_try_def updateThread_def updateThread_post_def deleteThread_def
  pinThread_def lockThread_def getThread_def

lemmas store_defs =
  select_thread_def update_thread_def findOne_def comments_id_def save_def findParent_def
  newComment_def newThread_def newPost_def bump_reply_def drop_reply_def editComment_def
  tombstone_def toggle_originalPost_def toggle_comment_def updateFields_def successResponse_def
  isMod_def int4_max_def out_of_range_def

lemmas sample_defs = alice_def bob_def carol_def quiet_def start_def boom_def counter_down_def
  push_down_def two_adds_def one_delete_def write_down_def write_lost_def

subsection \<open>Lists and lookups\<close>

lemma update_first_set:
  "x \<in> set (update_first P f xs) \<Longrightarrow> x \<in> set xs \<or> (\<exists>y \<in> set xs. P y \<and> x = f y)"
  by (induction xs) (auto split: if_splits)

lemma update_first_all:
  assumes "\<forall>x \<in> set xs. I x" and "\<And>x. x \<in> set xs \<Longrightarrow> P x \<Longrightarrow> I (f x)"
  shows "\<forall>x \<in> set (update_first P f xs). I x"
proof
  fix x assume a: "x \<in> set (update_first P f xs)"
  from update_first_set[OF a] assms show "I x" by blast
qed

lemma update_first_none: "find P xs = None \<Longrightarrow> update_first P f xs = xs"
  by (induction xs) (auto split: if_splits)

lemma update_first_map:
  "(\<And>x. x \<in> set xs \<Longrightarrow> P x \<Longrightarrow> g (f x) = g x) \<Longrightarrow> map g (update_first P f xs) = map g xs"
  by (induction xs) auto

lemma update_first_find:
  "find P xs = Some x \<Longrightarrow> P (f x) \<Longrightarrow> find P (update_first P f xs) = Some (f x)"
  by (induction xs) (auto split: if_splits)

lemma update_first_find_other:
  "(\<And>x. x \<in> set xs \<Longrightarrow> P x \<Longrightarrow> \<not> Q x \<and> \<not> Q (f x)) \<Longrightarrow> find Q (update_first P f xs) = find Q xs"
  by (induction xs) auto

lemma update_first_twice:
  "(\<And>x. x \<in> set xs \<Longrightarrow> P x \<Longrightarrow> P (f x)) \<Longrightarrow>
   update_first P g (update_first P f xs) = update_first P (\<lambda>x. g (f x)) xs"
  by (induction xs) auto

lemma delete_first_subset: "set (delete_first P xs) \<subseteq> set xs"
  by (induction xs) auto

lemma delete_first_distinct: "distinct (map g xs) \<Longrightarrow> distinct (map g (delete_first P xs))"
proof (induction xs)
  case Nil
  then show ?case by simp
next
  case (Cons x xs)
  have "g x \<notin> g ` set (delete_first P xs)"
    using Cons.prems delete_first_subset[of P xs] by auto
  with Cons show ?case by auto
qed

lemma delete_first_append_fresh:
  "find P xs = None \<Longrightarrow> P y \<Longrightarrow> delete_first P (xs @ [y]) = xs"
  by (induction xs) (auto split: if_splits)

lemma delete_first_none: "find P xs = None \<Longrightarrow> delete_first P xs = xs"
  by (induction xs) (auto split: if_splits)

lemma deleteOne_subset: "set (deleteOne i ps) \<subseteq> set ps"
  by (cases i) (auto dest: subsetD[OF delete_first_subset])

lemma findOne_mem: "findOne i ps = Some p \<Longrightarrow> p \<in> set ps \<and> p_threadId p = i"
  by (auto simp: findOne_def find_Some_iff)

lemma findOne_None: "findOne i ps = None \<longleftrightarrow> i \<notin> p_threadId ` set ps"
  by (auto simp: findOne_def find_None_iff)

lemma comments_id_mem: "comments_id i cs = Some c \<Longrightarrow> c \<in> set cs \<and> c_id c = i"
  by (auto simp: comments_id_def find_Some_iff)

lemma select_thread_mem: "select_thread i rows = Some r \<Longrightarrow> r \<in> set rows \<and> t_id r = i"
  by (auto simp: select_thread_def find_Some_iff)

lemma length_remove1_int: "u \<in> set vs \<Longrightarrow> int (length (remove1 u vs)) = int (length vs) - 1"
  by (induction vs) auto

lemma findOne_save:
  "findOne i ps = Some p \<Longrightarrow> p_threadId q = i \<Longrightarrow> findOne i (save q ps) = Some q"
  unfolding findOne_def save_def
  using update_first_find[of "\<lambda>p. p_threadId p = i" ps p "\<lambda>_. q"] by simp

lemma save_save: "p_threadId q' = p_threadId q \<Longrightarrow> save q' (save q ps) = save q' ps"
  unfolding save_def
  using update_first_twice[of ps "\<lambda>x. p_threadId x = p_threadId q" "\<lambda>_. q" "\<lambda>_. q'"] by simp

lemma comments_id_replace:
  "comments_id j cs = Some c \<Longrightarrow> c_id c' = j \<Longrightarrow>
   comments_id j (update_first (\<lambda>x. c_id x = j) (\<lambda>_. c') cs) = Some c'"
  unfolding comments_id_def
  using update_first_find[of "\<lambda>c. c_id c = j" cs c "\<lambda>_. c'"] by simp

lemma replace_replace:
  "c_id c' = j \<Longrightarrow>
   update_first (\<lambda>x. c_id x = j) (\<lambda>_. c'') (update_first (\<lambda>x. c_id x = j) (\<lambda>_. c') cs)
     = update_first (\<lambda>x. c_id x = j) (\<lambda>_. c'') cs"
  using update_first_twice[of cs "\<lambda>x. c_id x = j" "\<lambda>_. c'" "\<lambda>_. c''"] by simp

lemma select_thread_update:
  "select_thread i rows = Some r \<Longrightarrow> t_id (f r) = i \<Longrightarrow>
   select_thread i (update_thread t i f rows) = Some ((f r)\<lparr>updated_at := t\<rparr>)"
  by (induction rows) (auto simp: select_thread_def update_thread_def split: if_splits)

lemma findOne_none_update: "findOne i ps = None \<Longrightarrow> update_first (\<lambda>p. p_threadId p = i) f ps = ps"
  by (simp add: findOne_def update_first_none)

lemma findParent_resolves: "findParent i pid ps = None \<longleftrightarrow> \<not> resolves i pid ps"
  by (auto simp: findParent_def resolves_def find_None_iff)

lemma findParent_findOne: "findParent i pid ps = Some q \<Longrightarrow> \<exists>p. findOne i ps = Some p"
proof -
  assume "findParent i pid ps = Some q"
  then have "q \<in> set ps \<and> p_threadId q = i"
    by (auto simp: findParent_def find_Some_iff)
  then have "findOne i ps \<noteq> None"
    by (auto simp: findOne_None)
  then show ?thesis by auto
qed

lemma findParent_Some: "findParent i pid ps = Some q \<Longrightarrow> resolves i pid ps"
  using findParent_resolves[of i pid ps] by simp

lemma update_first_unique:
  "distinct (map f xs) \<Longrightarrow> y \<in> set (update_first (\<lambda>x. f x = a) g xs) \<Longrightarrow> f y = a
   \<Longrightarrow> \<exists>x \<in> set xs. f x = a \<and> y = g x"
proof (induction xs)
  case Nil
  then show ?case by simp
next
  case (Cons x xs)
  show ?case
  proof (cases "f x = a")
    case True
    with Cons.prems show ?thesis by (auto simp: image_iff)
  next
    case False
    with Cons show ?thesis by auto
  qed
qed

lemma comments_id_Some: "j \<in> c_id ` set cs \<Longrightarrow> \<exists>c. comments_id j cs = Some c"
proof -
  assume "j \<in> c_id ` set cs"
  then have "comments_id j cs \<noteq> None"
    by (auto simp: comments_id_def find_None_iff)
  then show ?thesis by auto
qed

subsection \<open>What a call does to the stores\<close>

lemma createThread_posts:
  "posts (snd (createThread e u t c cat ts s))
     \<in> {posts s, posts s @ [newPost (uuid_gen s) u c ts],
         deleteOne (Some (uuid_gen s)) (posts s),
         deleteOne (Some (uuid_gen s)) (posts s @ [newPost (uuid_gen s) u c ts])}"
  by (simp add: createThread_def createThread_try_def Let_def newThread_def
      split: option.splits)

lemma pinThread_posts: "posts (snd (pinThread e i s)) = posts s"
  by (auto simp: pinThread_def split: option.splits)

lemma lockThread_posts: "posts (snd (lockThread e i s)) = posts s"
  by (auto simp: lockThread_def split: option.splits)

lemma getThread_posts: "posts (snd (getThread e sl s)) = posts s"
  by (auto simp: getThread_def Let_def split: option.splits)

lemma upvoteThread_Inr:
  assumes "upvoteThread e u i s = (Inr r, s')"
  obtains p where "findOne i (posts s) = Some p"
    and "s' = s\<lparr>posts := save (p\<lparr>originalPost := toggle_originalPost (u_id u) (originalPost p)\<rparr>) (posts s)\<rparr>"
  using assms
  by (auto simp: upvoteThread_def toggleUpvote_def Let_def split: option.splits)

lemma upvoteComment_Inr:
  assumes "upvoteComment e u i j s = (Inr r, s')"
  obtains p c where "findOne i (posts s) = Some p" and "comments_id j (comments p) = Some c"
    and "\<not> c_isDeleted c"
    and "s' = s\<lparr>posts := save (p\<lparr>comments := update_first (\<lambda>x. c_id x = j)
                (\<lambda>_. toggle_comment (u_id u) c) (comments p)\<rparr>) (posts s)\<rparr>"
  using assms
  by (auto simp: upvoteComment_def Let_def split: option.splits if_splits)

lemma replied_Inr: "replied x \<Longrightarrow> \<exists>r. x = (Inr r, snd x)"
  by (cases x) (auto simp: replied_def split: sum.splits)

lemma createComment_push_Inr:
  assumes "createComment_push e u i content pa s = (Inr r, s')"
  obtains p where "findOne i (posts s) = Some p"
    and "s' = s\<lparr>posts := save (p\<lparr>comments := comments p @ [newComment (oid_gen s) u content pa]\<rparr>)
                    (posts s),
               oid_gen := Suc (oid_gen s),
               threads := update_thread (now e) i (bump_reply (now e) (u_id u)) (threads s)\<rparr>"
    and "r = successResponse (CommentData (newComment (oid_gen s) u content pa)) ''Comment added'' 201"
  using assms
  by (auto simp: createComment_push_def createComment_count_def Let_def
      split: option.splits if_splits)

lemma createComment_Inr:
  assumes "createComment e u i content parent s = (Inr r, s')"
  obtains p thread pa where "select_thread i (threads s) = Some thread"
    and "findOne i (posts s) = Some p"
    and "parent = map_option WellFormed pa"
    and "s' = s\<lparr>posts := save (p\<lparr>comments := comments p @ [newComment (oid_gen s) u content pa]\<rparr>)
                    (posts s),
               oid_gen := Suc (oid_gen s),
               threads := update_thread (now e) i (bump_reply (now e) (u_id u)) (threads s)\<rparr>"
    and "r = successResponse (CommentData (newComment (oid_gen s) u content pa)) ''Comment added'' 201"
proof -
  define pa where "pa = (case parent of Some (WellFormed j) \<Rightarrow> Some j | _ \<Rightarrow> None)"
  from assms have "(\<exists>thread. select_thread i (threads s) = Some thread)
      \<and> parent = map_option WellFormed pa
      \<and> createComment_push e u i content pa s = (Inr r, s')"
    by (auto simp: createComment_def pa_def split: option.splits if_splits id_text.splits)
  then obtain thread where t: "select_thread i (threads s) = Some thread"
    and pa: "parent = map_option WellFormed pa"
    and c: "createComment_push e u i content pa s = (Inr r, s')"
    by blast
  from c obtain p where f: "findOne i (posts s) = Some p"
    and s': "s' = s\<lparr>posts := save (p\<lparr>comments := comments p @ [newComment (oid_gen s) u content pa]\<rparr>)
                    (posts s),
               oid_gen := Suc (oid_gen s),
               threads := update_thread (now e) i (bump_reply (now e) (u_id u)) (threads s)\<rparr>"
    and r: "r = successResponse (CommentData (newComment (oid_gen s) u content pa)) ''Comment added'' 201"
    by (rule createComment_push_Inr)
  show ?thesis by (rule that[OF t f pa s' r])
qed

lemma deleteComment_Inr:
  assumes "deleteComment e u i j s = (Inr r, s')"
  obtains p c where "findOne i (posts s) = Some p" and "comments_id j (comments p) = Some c"
    and "\<not> c_isDeleted c" and "c_authorId c = u_id u \<or> isMod u"
    and "s' = s\<lparr>posts := save (p\<lparr>comments := update_first (\<lambda>x. c_id x = j)
                                   (\<lambda>_. tombstone (now e) c) (comments p)\<rparr>) (posts s),
               threads := update_thread (now e) i drop_reply (threads s)\<rparr>"
  using assms
  by (auto simp: deleteComment_def deleteComment_count_def Let_def
      split: option.splits if_splits)

lemma run_replied_append:
  "run_replied (xs @ ys) s = Some s' \<longleftrightarrow>
   (\<exists>s1. run_replied xs s = Some s1 \<and> run_replied ys s1 = Some s')"
  by (induction xs arbitrary: s) (auto split: if_splits)

lemma updateComment_threads: "threads (snd (updateComment e u i c x s)) = threads s"
  by (auto simp: updateComment_def Let_def split: option.splits)

lemma upvoteThread_threads: "threads (snd (upvoteThread e u i s)) = threads s"
  by (auto simp: upvoteThread_def toggleUpvote_def Let_def split: option.splits)

lemma upvoteComment_threads: "threads (snd (upvoteComment e u i c s)) = threads s"
  by (auto simp: upvoteComment_def Let_def split: option.splits)

lemma createThread_threads:
  "threads (snd (createThread e u t c cat ts s))
     \<in> {threads s, threads s @ [newThread e (uuid_gen s) u t cat]}"
  by (simp add: createThread_def createThread_try_def Let_def split: option.splits)

lemma createThread_try_cases:
  "createThread_try e u t c cat ts s
     = Committed (newThread e (uuid_gen s) u t cat) (posts s @ [newPost (uuid_gen s) u c ts])
   \<or> (\<exists>x. createThread_try e u t c cat ts s = Thrown x None (posts s))
   \<or> (\<exists>x. createThread_try e u t c cat ts s = Thrown x (Some (uuid_gen s)) (posts s))
   \<or> (\<exists>x. createThread_try e u t c cat ts s
            = Thrown x (Some (uuid_gen s)) (posts s @ [newPost (uuid_gen s) u c ts]))"
  by (simp add: createThread_try_def Let_def newThread_def split: option.splits)

lemma createThread_effect:
  "snd (createThread e u t c cat ts s) = s
   \<or> snd (createThread e u t c cat ts s)
       = s\<lparr>threads := threads s @ [newThread e (uuid_gen s) u t cat],
           posts := posts s @ [newPost (uuid_gen s) u c ts], uuid_gen := Suc (uuid_gen s)\<rparr>
   \<or> (\<exists>ps \<in> {posts s, posts s @ [newPost (uuid_gen s) u c ts],
               deleteOne (Some (uuid_gen s)) (posts s),
               deleteOne (Some (uuid_gen s)) (posts s @ [newPost (uuid_gen s) u c ts])}.
         snd (createThread e u t c cat ts s) = s\<lparr>posts := ps, uuid_gen := Suc (uuid_gen s)\<rparr>)"
  using createThread_try_cases[of e u t c cat ts s]
  by (auto simp: createThread_def Let_def simp del: deleteOne.simps(2) split: option.splits)

section \<open>Invariants of the reachable states\<close>

subsection \<open>The vote invariant\<close>

lemma votes_ok_toggle_originalPost:
  "votes_ok (op_upvotes x) (op_upvotedBy x) \<Longrightarrow>
   votes_ok (op_upvotes (toggle_originalPost u x)) (op_upvotedBy (toggle_originalPost u x))"
  by (auto simp: votes_ok_def toggle_originalPost_def length_remove1_int)

lemma votes_ok_toggle_comment:
  "votes_ok (c_upvotes x) (c_upvotedBy x) \<Longrightarrow>
   votes_ok (c_upvotes (toggle_comment u x)) (c_upvotedBy (toggle_comment u x))"
  by (auto simp: votes_ok_def toggle_comment_def length_remove1_int)

lemma all_votes_ok_save:
  assumes "all_votes_ok ps" and "post_votes_ok p"
  shows "all_votes_ok (save p ps)"
proof -
  have "\<forall>x \<in> set (update_first (\<lambda>q. p_threadId q = p_threadId p) (\<lambda>_. p) ps). post_votes_ok x"
    using assms by (intro update_first_all) (auto simp: all_votes_ok_def)
  then show ?thesis by (simp add: all_votes_ok_def save_def)
qed

lemma all_votes_ok_findOne: "all_votes_ok ps \<Longrightarrow> findOne i ps = Some p \<Longrightarrow> post_votes_ok p"
  by (auto simp: all_votes_ok_def dest: findOne_mem)

lemma all_votes_ok_append: "all_votes_ok ps \<Longrightarrow> post_votes_ok p \<Longrightarrow> all_votes_ok (ps @ [p])"
  by (simp add: all_votes_ok_def)

lemma all_votes_ok_deleteOne: "all_votes_ok ps \<Longrightarrow> all_votes_ok (deleteOne i ps)"
  using deleteOne_subset by (fastforce simp: all_votes_ok_def)

lemma post_votes_ok_push:
  "post_votes_ok p \<Longrightarrow> post_votes_ok (p\<lparr>comments := comments p @ [newComment i u c pa]\<rparr>)"
  by (simp add: post_votes_ok_def newComment_def votes_ok_def)

lemma post_votes_ok_replace:
  assumes "post_votes_ok p" and "votes_ok (c_upvotes c) (c_upvotedBy c)"
  shows "post_votes_ok (p\<lparr>comments := update_first P (\<lambda>_. c) (comments p)\<rparr>)"
proof -
  have "\<forall>x \<in> set (update_first P (\<lambda>_. c) (comments p)). votes_ok (c_upvotes x) (c_upvotedBy x)"
    using assms by (intro update_first_all) (auto simp: post_votes_ok_def)
  with assms(1) show ?thesis by (simp add: post_votes_ok_def)
qed

lemma post_votes_ok_comment:
  "post_votes_ok p \<Longrightarrow> comments_id i (comments p) = Some c \<Longrightarrow> votes_ok (c_upvotes c) (c_upvotedBy c)"
  by (auto simp: post_votes_ok_def dest: comments_id_mem)

lemma all_votes_ok_comment:
  "all_votes_ok ps \<Longrightarrow> findOne i ps = Some p \<Longrightarrow> comments_id j (comments p) = Some c
   \<Longrightarrow> votes_ok (c_upvotes c) (c_upvotedBy c)"
  using all_votes_ok_findOne post_votes_ok_comment by blast

lemma post_votes_ok_newPost: "post_votes_ok (newPost i u c ts)"
  by (simp add: post_votes_ok_def newPost_def votes_ok_def)

lemma post_votes_ok_updateFields: "post_votes_ok p \<Longrightarrow> post_votes_ok (updateFields t c ts p)"
  by (auto simp: post_votes_ok_def updateFields_def Let_def split: option.splits)

lemma all_votes_ok_updateFields:
  assumes "all_votes_ok ps"
  shows "all_votes_ok (update_first P (updateFields t c ts) ps)"
proof -
  have "\<forall>x \<in> set (update_first P (updateFields t c ts) ps). post_votes_ok x"
    using assms by (intro update_first_all) (auto simp: all_votes_ok_def post_votes_ok_updateFields)
  then show ?thesis by (simp add: all_votes_ok_def)
qed

lemma post_votes_ok_toggle:
  "post_votes_ok p \<Longrightarrow> post_votes_ok (p\<lparr>originalPost := toggle_originalPost u (originalPost p)\<rparr>)"
  by (simp add: post_votes_ok_def votes_ok_toggle_originalPost)

lemma createComment_votes:
  "all_votes_ok (posts s) \<Longrightarrow> all_votes_ok (posts (snd (createComment e u i c pa s)))"
  by (auto simp: createComment_def createComment_push_def createComment_count_def Let_def
        all_votes_ok_save all_votes_ok_findOne post_votes_ok_push
      split: option.splits id_text.splits)

lemma updateComment_votes:
  "all_votes_ok (posts s) \<Longrightarrow> all_votes_ok (posts (snd (updateComment e u i c x s)))"
  by (auto simp: updateComment_def Let_def editComment_def
      intro!: all_votes_ok_save post_votes_ok_replace
      intro: all_votes_ok_findOne all_votes_ok_comment
      split: option.splits)

lemma deleteComment_votes:
  "all_votes_ok (posts s) \<Longrightarrow> all_votes_ok (posts (snd (deleteComment e u i c s)))"
  by (auto simp: deleteComment_def deleteComment_count_def Let_def tombstone_def
      intro!: all_votes_ok_save post_votes_ok_replace
      intro: all_votes_ok_findOne all_votes_ok_comment
      split: option.splits)

lemma upvoteThread_votes:
  "all_votes_ok (posts s) \<Longrightarrow> all_votes_ok (posts (snd (upvoteThread e u i s)))"
  by (auto simp: upvoteThread_def toggleUpvote_def Let_def
      intro!: all_votes_ok_save post_votes_ok_toggle
      intro: all_votes_ok_findOne
      split: option.splits)

lemma upvoteComment_votes:
  "all_votes_ok (posts s) \<Longrightarrow> all_votes_ok (posts (snd (upvoteComment e u i c s)))"
  by (auto simp: upvoteComment_def Let_def
      intro!: all_votes_ok_save post_votes_ok_replace votes_ok_toggle_comment
      intro: all_votes_ok_findOne all_votes_ok_comment
      split: option.splits)

lemma createThread_votes:
  assumes "all_votes_ok (posts s)"
  shows "all_votes_ok (posts (snd (createThread e u t c cat ts s)))"
proof -
  have "all_votes_ok (posts s @ [newPost (uuid_gen s) u c ts])"
    using assms by (simp add: all_votes_ok_append post_votes_ok_newPost)
  with assms createThread_posts[of e u t c cat ts s] show ?thesis
    by (auto simp del: deleteOne.simps intro: all_votes_ok_deleteOne)
qed

lemma updateThread_votes:
  "all_votes_ok (posts s) \<Longrightarrow> all_votes_ok (posts (snd (updateThread e u i t c ts s)))"
  by (auto simp: updateThread_def updateThread_post_def all_votes_ok_updateFields
      split: option.splits)

lemma deleteThread_votes:
  "all_votes_ok (posts s) \<Longrightarrow> all_votes_ok (posts (snd (deleteThread e i s)))"
  using all_votes_ok_deleteOne[of "posts s" "Some i"]
  by (auto simp: deleteThread_def Let_def split: option.splits)

lemma handle_votes: "all_votes_ok (posts s) \<Longrightarrow> all_votes_ok (posts (snd (handle e r s)))"
  by (cases r)
    (simp_all add: createComment_votes updateComment_votes deleteComment_votes upvoteThread_votes
      upvoteComment_votes createThread_votes updateThread_votes deleteThread_votes
      pinThread_posts lockThread_posts getThread_posts)

lemma reachable_votes: "reachable s \<Longrightarrow> all_votes_ok (posts s)"
proof (induction rule: reachable.induct)
  case (initial cs)
  then show ?case by (simp add: all_votes_ok_def)
next
  case (category s cs)
  then show ?case by simp
next
  case (handled s e r)
  then show ?case by (simp add: handle_votes)
qed

lemma votes_ok_card: "votes_ok n vs \<Longrightarrow> n = int (card (set vs)) \<and> n = int (length vs)"
  by (simp add: votes_ok_def distinct_card)

lemma toggle_originalPost_twice:
  assumes "distinct (op_upvotedBy x)"
  shows "\<exists>vs. toggle_originalPost u (toggle_originalPost u x) = x\<lparr>op_upvotedBy := vs\<rparr>
           \<and> set vs = set (op_upvotedBy x)"
proof (cases "u \<in> set (op_upvotedBy x)")
  case True
  then have "set (remove1 u (op_upvotedBy x) @ [u]) = set (op_upvotedBy x)"
    using assms by auto
  with True assms show ?thesis
    by (intro exI[of _ "remove1 u (op_upvotedBy x) @ [u]"]) (simp add: toggle_originalPost_def)
next
  case False
  then show ?thesis
    by (intro exI[of _ "op_upvotedBy x"]) (simp add: toggle_originalPost_def remove1_append)
qed

lemma toggle_comment_twice:
  assumes "distinct (c_upvotedBy x)"
  shows "\<exists>vs. toggle_comment u (toggle_comment u x) = x\<lparr>c_upvotedBy := vs\<rparr>
           \<and> set vs = set (c_upvotedBy x)"
proof (cases "u \<in> set (c_upvotedBy x)")
  case True
  then have "set (remove1 u (c_upvotedBy x) @ [u]) = set (c_upvotedBy x)"
    using assms by auto
  with True assms show ?thesis
    by (intro exI[of _ "remove1 u (c_upvotedBy x) @ [u]"]) (simp add: toggle_comment_def)
next
  case False
  then show ?thesis
    by (intro exI[of _ "c_upvotedBy x"]) (simp add: toggle_comment_def remove1_append)
qed

lemma toggle_originalPost_once:
  "distinct (op_upvotedBy x) \<Longrightarrow>
   (if u \<in> set (op_upvotedBy x)
    then u \<notin> set (op_upvotedBy (toggle_originalPost u x))
         \<and> op_upvotes (toggle_originalPost u x) = op_upvotes x - 1
    else u \<in> set (op_upvotedBy (toggle_originalPost u x))
         \<and> op_upvotes (toggle_originalPost u x) = op_upvotes x + 1)"
  by (simp add: toggle_originalPost_def)

lemma toggle_comment_once:
  "distinct (c_upvotedBy x) \<Longrightarrow>
   (if u \<in> set (c_upvotedBy x)
    then u \<notin> set (c_upvotedBy (toggle_comment u x))
         \<and> c_upvotes (toggle_comment u x) = c_upvotes x - 1
    else u \<in> set (c_upvotedBy (toggle_comment u x))
         \<and> c_upvotes (toggle_comment u x) = c_upvotes x + 1)"
  by (simp add: toggle_comment_def)

lemma toggle_comment_id [simp]: "c_id (toggle_comment u c) = c_id c"
  by (simp add: toggle_comment_def)

lemma toggle_comment_isDeleted [simp]: "c_isDeleted (toggle_comment u c) = c_isDeleted c"
  by (simp add: toggle_comment_def)

lemma upvoteThread_twice:
  assumes v: "all_votes_ok (posts s)"
    and 1: "upvoteThread e1 u i s = (Inr r1, s1)"
    and 2: "upvoteThread e2 u i s1 = (Inr r2, s2)"
  shows "\<exists>p p1 vs. findOne i (posts s) = Some p \<and> findOne i (posts s1) = Some p1
     \<and> findOne i (posts s2) = Some (p\<lparr>originalPost := (originalPost p)\<lparr>op_upvotedBy := vs\<rparr>\<rparr>)
     \<and> set vs = set (op_upvotedBy (originalPost p))
     \<and> s2 = s\<lparr>posts := save (p\<lparr>originalPost := (originalPost p)\<lparr>op_upvotedBy := vs\<rparr>\<rparr>) (posts s)\<rparr>
     \<and> (if u_id u \<in> set (op_upvotedBy (originalPost p))
         then u_id u \<notin> set (op_upvotedBy (originalPost p1))
              \<and> op_upvotes (originalPost p1) = op_upvotes (originalPost p) - 1
         else u_id u \<in> set (op_upvotedBy (originalPost p1))
              \<and> op_upvotes (originalPost p1) = op_upvotes (originalPost p) + 1)"
proof -
  from 1 obtain p where p: "findOne i (posts s) = Some p"
    and s1: "s1 = s\<lparr>posts := save (p\<lparr>originalPost := toggle_originalPost (u_id u) (originalPost p)\<rparr>) (posts s)\<rparr>"
    by (rule upvoteThread_Inr)
  let ?p1 = "p\<lparr>originalPost := toggle_originalPost (u_id u) (originalPost p)\<rparr>"
  have i: "p_threadId p = i" using p by (simp add: findOne_mem)
  have f1: "findOne i (posts s1) = Some ?p1"
    using findOne_save[OF p, of ?p1] i by (simp add: s1)
  from 2 obtain q where q: "findOne i (posts s1) = Some q"
    and s2: "s2 = s1\<lparr>posts := save (q\<lparr>originalPost := toggle_originalPost (u_id u) (originalPost q)\<rparr>) (posts s1)\<rparr>"
    by (rule upvoteThread_Inr)
  from q f1 have qp: "q = ?p1" by simp
  have d: "distinct (op_upvotedBy (originalPost p))"
    using all_votes_ok_findOne[OF v p] by (simp add: post_votes_ok_def votes_ok_def)
  from toggle_originalPost_twice[OF d, of "u_id u"] obtain vs where
    t: "toggle_originalPost (u_id u) (toggle_originalPost (u_id u) (originalPost p))
          = (originalPost p)\<lparr>op_upvotedBy := vs\<rparr>"
    and vs: "set vs = set (op_upvotedBy (originalPost p))" by blast
  let ?p2 = "p\<lparr>originalPost := (originalPost p)\<lparr>op_upvotedBy := vs\<rparr>\<rparr>"
  have q2: "q\<lparr>originalPost := toggle_originalPost (u_id u) (originalPost q)\<rparr> = ?p2"
    by (simp add: qp t)
  have "save ?p2 (save ?p1 (posts s)) = save ?p2 (posts s)"
    by (rule save_save) simp
  then have s2': "s2 = s\<lparr>posts := save ?p2 (posts s)\<rparr>"
    by (simp add: s2 q2 s1)
  have f2: "findOne i (posts s2) = Some ?p2"
    using findOne_save[OF p, of ?p2] i by (simp add: s2')
  have o: "if u_id u \<in> set (op_upvotedBy (originalPost p))
         then u_id u \<notin> set (op_upvotedBy (originalPost ?p1))
              \<and> op_upvotes (originalPost ?p1) = op_upvotes (originalPost p) - 1
         else u_id u \<in> set (op_upvotedBy (originalPost ?p1))
              \<and> op_upvotes (originalPost ?p1) = op_upvotes (originalPost p) + 1"
    using toggle_originalPost_once[OF d, of "u_id u"] by simp
  from p f1 f2 vs s2' o show ?thesis by blast
qed

lemma upvoteComment_twice:
  assumes v: "all_votes_ok (posts s)"
    and 1: "upvoteComment e1 u i j s = (Inr r1, s1)"
    and 2: "upvoteComment e2 u i j s1 = (Inr r2, s2)"
  shows "\<exists>p c p1 c1 vs. findOne i (posts s) = Some p \<and> comments_id j (comments p) = Some c
     \<and> findOne i (posts s1) = Some p1 \<and> comments_id j (comments p1) = Some c1
     \<and> findOne i (posts s2)
         = Some (p\<lparr>comments := update_first (\<lambda>x. c_id x = j) (\<lambda>_. c\<lparr>c_upvotedBy := vs\<rparr>) (comments p)\<rparr>)
     \<and> comments_id j (update_first (\<lambda>x. c_id x = j) (\<lambda>_. c\<lparr>c_upvotedBy := vs\<rparr>) (comments p))
         = Some (c\<lparr>c_upvotedBy := vs\<rparr>)
     \<and> set vs = set (c_upvotedBy c)
     \<and> s2 = s\<lparr>posts := save (p\<lparr>comments := update_first (\<lambda>x. c_id x = j)
                                  (\<lambda>_. c\<lparr>c_upvotedBy := vs\<rparr>) (comments p)\<rparr>) (posts s)\<rparr>
     \<and> (if u_id u \<in> set (c_upvotedBy c)
         then u_id u \<notin> set (c_upvotedBy c1) \<and> c_upvotes c1 = c_upvotes c - 1
         else u_id u \<in> set (c_upvotedBy c1) \<and> c_upvotes c1 = c_upvotes c + 1)"
proof -
  from 1 obtain p c where p: "findOne i (posts s) = Some p"
    and c: "comments_id j (comments p) = Some c"
    and s1: "s1 = s\<lparr>posts := save (p\<lparr>comments := update_first (\<lambda>x. c_id x = j)
                (\<lambda>_. toggle_comment (u_id u) c) (comments p)\<rparr>) (posts s)\<rparr>"
    by (rule upvoteComment_Inr)
  let ?c1 = "toggle_comment (u_id u) c"
  let ?p1 = "p\<lparr>comments := update_first (\<lambda>x. c_id x = j) (\<lambda>_. ?c1) (comments p)\<rparr>"
  have i: "p_threadId p = i" using p by (simp add: findOne_mem)
  have j: "c_id c = j" using c by (simp add: comments_id_mem)
  have f1: "findOne i (posts s1) = Some ?p1"
    using findOne_save[OF p, of ?p1] i by (simp add: s1)
  have g1: "comments_id j (comments ?p1) = Some ?c1"
    using comments_id_replace[OF c, of ?c1] j by simp
  from 2 obtain q d where q: "findOne i (posts s1) = Some q"
    and d: "comments_id j (comments q) = Some d"
    and s2: "s2 = s1\<lparr>posts := save (q\<lparr>comments := update_first (\<lambda>x. c_id x = j)
                (\<lambda>_. toggle_comment (u_id u) d) (comments q)\<rparr>) (posts s1)\<rparr>"
    by (rule upvoteComment_Inr)
  from q f1 have qp: "q = ?p1" by simp
  from d g1 qp have dc: "d = ?c1" by simp
  have dist: "distinct (c_upvotedBy c)"
    using all_votes_ok_comment[OF v p c] by (simp add: votes_ok_def)
  from toggle_comment_twice[OF dist, of "u_id u"] obtain vs where
    t: "toggle_comment (u_id u) ?c1 = c\<lparr>c_upvotedBy := vs\<rparr>"
    and vs: "set vs = set (c_upvotedBy c)" by blast
  let ?c2 = "c\<lparr>c_upvotedBy := vs\<rparr>"
  let ?p2 = "p\<lparr>comments := update_first (\<lambda>x. c_id x = j) (\<lambda>_. ?c2) (comments p)\<rparr>"
  have r: "update_first (\<lambda>x. c_id x = j) (\<lambda>_. ?c2)
             (update_first (\<lambda>x. c_id x = j) (\<lambda>_. ?c1) (comments p))
           = update_first (\<lambda>x. c_id x = j) (\<lambda>_. ?c2) (comments p)"
    by (rule replace_replace) (simp add: j)
  have q2: "q\<lparr>comments := update_first (\<lambda>x. c_id x = j)
                (\<lambda>_. toggle_comment (u_id u) d) (comments q)\<rparr> = ?p2"
    by (simp add: qp dc t r)
  have "save ?p2 (save ?p1 (posts s)) = save ?p2 (posts s)"
    by (rule save_save) simp
  then have s2': "s2 = s\<lparr>posts := save ?p2 (posts s)\<rparr>"
    by (simp add: s2 q2 s1)
  have f2: "findOne i (posts s2) = Some ?p2"
    using findOne_save[OF p, of ?p2] i by (simp add: s2')
  have g2: "comments_id j (update_first (\<lambda>x. c_id x = j) (\<lambda>_. ?c2) (comments p)) = Some ?c2"
    using comments_id_replace[OF c, of ?c2] j by simp
  have o: "if u_id u \<in> set (c_upvotedBy c)
         then u_id u \<notin> set (c_upvotedBy ?c1) \<and> c_upvotes ?c1 = c_upvotes c - 1
         else u_id u \<in> set (c_upvotedBy ?c1) \<and> c_upvotes ?c1 = c_upvotes c + 1"
    using toggle_comment_once[OF dist, of "u_id u"] by simp
  from p c f1 g1 f2 g2 vs s2' o show ?thesis by blast
qed

subsection \<open>The reply counter\<close>

lemma createComment_row:
  assumes "replied (createComment e u i content parent s)"
    and "select_thread i (threads s) = Some row"
  shows "select_thread i (threads (snd (createComment e u i content parent s)))
           = Some (row\<lparr>reply_count := reply_count row + 1, last_reply_at := Some (now e),
                       last_reply_by := Some (u_id u), updated_at := now e\<rparr>)"
proof -
  from replied_Inr[OF assms(1)] obtain r where
    "createComment e u i content parent s = (Inr r, snd (createComment e u i content parent s))"
    by blast
  then have t: "threads (snd (createComment e u i content parent s))
      = update_thread (now e) i (bump_reply (now e) (u_id u)) (threads s)"
    by (rule createComment_Inr) simp
  have "t_id row = i" using assms(2) by (simp add: select_thread_mem)
  then show ?thesis
    using select_thread_update[OF assms(2), of "bump_reply (now e) (u_id u)" "now e"]
    by (simp add: t bump_reply_def)
qed

lemma deleteComment_row:
  assumes "replied (deleteComment e u i j s)"
    and "select_thread i (threads s) = Some row"
  shows "select_thread i (threads (snd (deleteComment e u i j s)))
           = Some (row\<lparr>reply_count := max (reply_count row - 1) 0, updated_at := now e\<rparr>)"
proof -
  from replied_Inr[OF assms(1)] obtain r where
    "deleteComment e u i j s = (Inr r, snd (deleteComment e u i j s))"
    by blast
  then have t: "threads (snd (deleteComment e u i j s))
      = update_thread (now e) i drop_reply (threads s)"
    by (rule deleteComment_Inr) simp
  have "t_id row = i" using assms(2) by (simp add: select_thread_mem)
  then show ?thesis
    using select_thread_update[OF assms(2), of drop_reply "now e"]
    by (simp add: t drop_reply_def)
qed

lemma adds_count:
  assumes "run_replied adds s = Some s'" and "\<forall>x \<in> set adds. is_add i (snd x)"
    and "select_thread i (threads s) = Some row"
  shows "\<exists>row'. select_thread i (threads s') = Some row'
           \<and> reply_count row' = reply_count row + int (length adds)"
  using assms
proof (induction adds arbitrary: s row)
  case Nil
  then show ?case by simp
next
  case (Cons a adds)
  obtain e r where a: "a = (e, r)" by (cases a)
  from Cons.prems(2) a obtain u content parent where r: "r = CreateComment u i content parent"
    by (cases r) auto
  from Cons.prems(1) a have rep: "replied (handle e r s)"
    and rest: "run_replied adds (snd (handle e r s)) = Some s'"
    by (auto split: if_splits)
  from rep r have "replied (createComment e u i content parent s)" by simp
  from createComment_row[OF this Cons.prems(3)]
  have row1: "select_thread i (threads (snd (handle e r s)))
           = Some (row\<lparr>reply_count := reply_count row + 1, last_reply_at := Some (now e),
                       last_reply_by := Some (u_id u), updated_at := now e\<rparr>)"
    by (simp add: r)
  from Cons.IH[OF rest _ row1] Cons.prems(2) show ?case by auto
qed

lemma deletes_count:
  assumes "run_replied dels s = Some s'" and "\<forall>x \<in> set dels. is_delete i (snd x)"
    and "select_thread i (threads s) = Some row" and "0 \<le> reply_count row"
  shows "\<exists>row'. select_thread i (threads s') = Some row'
           \<and> reply_count row' = max 0 (reply_count row - int (length dels))"
  using assms
proof (induction dels arbitrary: s row)
  case Nil
  then show ?case by simp
next
  case (Cons a dels)
  obtain e r where a: "a = (e, r)" by (cases a)
  from Cons.prems(2) a obtain u j where r: "r = DeleteComment u i j"
    by (cases r) auto
  from Cons.prems(1) a have rep: "replied (handle e r s)"
    and rest: "run_replied dels (snd (handle e r s)) = Some s'"
    by (auto split: if_splits)
  from rep r have "replied (deleteComment e u i j s)" by simp
  from deleteComment_row[OF this Cons.prems(3)]
  have row1: "select_thread i (threads (snd (handle e r s)))
           = Some (row\<lparr>reply_count := max (reply_count row - 1) 0, updated_at := now e\<rparr>)"
    by (simp add: r)
  have "0 \<le> reply_count (row\<lparr>reply_count := max (reply_count row - 1) 0, updated_at := now e\<rparr>)"
    by simp
  from Cons.IH[OF rest _ row1 this] Cons.prems(2,4) show ?case by auto
qed

lemma counts_ok_update:
  "counts_ok rows \<Longrightarrow> (\<And>r. 0 \<le> reply_count r \<Longrightarrow> 0 \<le> reply_count (f r))
   \<Longrightarrow> counts_ok (update_thread t i f rows)"
  by (auto simp: counts_ok_def update_thread_def)

lemma counts_ok_filter: "counts_ok rows \<Longrightarrow> counts_ok (filter P rows)"
  by (simp add: counts_ok_def)

lemma counts_ok_append: "counts_ok rows \<Longrightarrow> 0 \<le> reply_count r \<Longrightarrow> counts_ok (rows @ [r])"
  by (simp add: counts_ok_def)

lemma createComment_counts:
  "counts_ok (threads s) \<Longrightarrow> counts_ok (threads (snd (createComment e u i c pa s)))"
  by (auto simp: createComment_def createComment_push_def createComment_count_def Let_def
        bump_reply_def
      intro!: counts_ok_update split: option.splits id_text.splits)

lemma deleteComment_counts:
  "counts_ok (threads s) \<Longrightarrow> counts_ok (threads (snd (deleteComment e u i c s)))"
  by (auto simp: deleteComment_def deleteComment_count_def Let_def drop_reply_def
      intro!: counts_ok_update split: option.splits)

lemma createThread_counts:
  "counts_ok (threads s) \<Longrightarrow> counts_ok (threads (snd (createThread e u t c cat ts s)))"
  using createThread_threads[of e u t c cat ts s]
  by (auto simp: counts_ok_append newThread_def)

lemma updateThread_counts:
  "counts_ok (threads s) \<Longrightarrow> counts_ok (threads (snd (updateThread e u i t c ts s)))"
  by (auto simp: updateThread_def updateThread_post_def
      intro!: counts_ok_update split: option.splits)

lemma deleteThread_counts:
  "counts_ok (threads s) \<Longrightarrow> counts_ok (threads (snd (deleteThread e i s)))"
  by (auto simp: deleteThread_def Let_def counts_ok_filter split: option.splits)

lemma pinThread_counts:
  "counts_ok (threads s) \<Longrightarrow> counts_ok (threads (snd (pinThread e i s)))"
  by (auto simp: pinThread_def intro!: counts_ok_update split: option.splits)

lemma lockThread_counts:
  "counts_ok (threads s) \<Longrightarrow> counts_ok (threads (snd (lockThread e i s)))"
  by (auto simp: lockThread_def intro!: counts_ok_update split: option.splits)

lemma getThread_counts:
  "counts_ok (threads s) \<Longrightarrow> counts_ok (threads (snd (getThread e sl s)))"
  by (auto simp: getThread_def Let_def intro!: counts_ok_update split: option.splits)

lemma handle_counts: "counts_ok (threads s) \<Longrightarrow> counts_ok (threads (snd (handle e r s)))"
  by (cases r)
    (simp_all add: createComment_counts deleteComment_counts updateComment_threads
      upvoteThread_threads upvoteComment_threads createThread_counts updateThread_counts
      deleteThread_counts pinThread_counts lockThread_counts getThread_counts)

lemma run_counts: "counts_ok (threads s) \<Longrightarrow> counts_ok (threads (run rs s))"
proof (induction rs arbitrary: s)
  case Nil
  then show ?case by simp
next
  case (Cons a rs)
  then show ?case by (cases a) (simp add: handle_counts)
qed

lemma reachable_counts: "reachable s \<Longrightarrow> counts_ok (threads s)"
proof (induction rule: reachable.induct)
  case (initial cs)
  then show ?case by (simp add: counts_ok_def)
next
  case (category s cs)
  then show ?case by simp
next
  case (handled s e r)
  then show ?case by (simp add: handle_counts)
qed

lemma ids_ok_fresh_row: "ids_ok s \<Longrightarrow> select_thread (uuid_gen s) (threads s) = None"
  by (auto simp: ids_ok_def rows_below_def select_thread_def find_None_iff)

subsection \<open>Identifiers\<close>

lemma rows_below_update:
  "rows_below n rows \<Longrightarrow> (\<And>r. t_id (f r) = t_id r) \<Longrightarrow> rows_below n (update_thread t i f rows)"
  by (auto simp: rows_below_def update_thread_def)

lemma rows_below_filter: "rows_below n rows \<Longrightarrow> rows_below n (filter P rows)"
  by (simp add: rows_below_def)

lemma rows_below_Suc: "rows_below n rows \<Longrightarrow> rows_below (Suc n) rows"
  by (auto simp: rows_below_def less_Suc_eq)

lemma rows_below_append: "rows_below n rows \<Longrightarrow> t_id r = n \<Longrightarrow> rows_below (Suc n) (rows @ [r])"
  by (auto simp: rows_below_def less_Suc_eq)

lemma post_ids_ok_mono: "post_ids_ok n m p \<Longrightarrow> n \<le> n' \<Longrightarrow> m \<le> m' \<Longrightarrow> post_ids_ok n' m' p"
  by (fastforce simp: post_ids_ok_def)

lemma docs_ok_mono: "docs_ok n m ps \<Longrightarrow> n \<le> n' \<Longrightarrow> m \<le> m' \<Longrightarrow> docs_ok n' m' ps"
  using post_ids_ok_mono by (fastforce simp: docs_ok_def)

lemma docs_ok_findOne: "docs_ok n m ps \<Longrightarrow> findOne i ps = Some p \<Longrightarrow> post_ids_ok n m p"
  by (auto simp: docs_ok_def dest: findOne_mem)

lemma docs_ok_save:
  assumes "docs_ok n m ps" and "post_ids_ok n m q"
  shows "docs_ok n m (save q ps)"
proof -
  have a: "\<forall>x \<in> set (update_first (\<lambda>x. p_threadId x = p_threadId q) (\<lambda>_. q) ps). post_ids_ok n m x"
    using assms by (intro update_first_all) (auto simp: docs_ok_def)
  have "map p_threadId (update_first (\<lambda>x. p_threadId x = p_threadId q) (\<lambda>_. q) ps) = map p_threadId ps"
    by (rule update_first_map) simp
  with a assms(1) show ?thesis by (simp add: docs_ok_def save_def)
qed

lemma docs_ok_updateFields:
  assumes "docs_ok n m ps"
  shows "docs_ok n m (update_first P (updateFields t c ts) ps)"
proof -
  have k: "\<And>x. post_ids_ok n m x \<Longrightarrow> post_ids_ok n m (updateFields t c ts x)"
    by (auto simp: post_ids_ok_def updateFields_def Let_def split: option.splits)
  have a: "\<forall>x \<in> set (update_first P (updateFields t c ts) ps). post_ids_ok n m x"
    using assms k by (intro update_first_all) (auto simp: docs_ok_def)
  have "map p_threadId (update_first P (updateFields t c ts) ps) = map p_threadId ps"
    by (rule update_first_map) (auto simp: updateFields_def Let_def split: option.splits)
  with a assms show ?thesis by (simp add: docs_ok_def)
qed

lemma docs_ok_append: "docs_ok n m ps \<Longrightarrow> docs_ok (Suc n) m (ps @ [newPost n u c ts])"
proof -
  assume a: "docs_ok n m ps"
  then have "n \<notin> p_threadId ` set ps"
    by (auto simp: docs_ok_def post_ids_ok_def)
  moreover have "post_ids_ok (Suc n) m (newPost n u c ts)"
    by (simp add: post_ids_ok_def newPost_def)
  moreover have "docs_ok (Suc n) m ps"
    using a by (rule docs_ok_mono) simp_all
  ultimately show ?thesis
    by (auto simp: docs_ok_def newPost_def)
qed

lemma docs_ok_deleteOne: "docs_ok n m ps \<Longrightarrow> docs_ok n m (deleteOne i ps)"
proof (cases i)
  case None
  assume "docs_ok n m ps"
  with None show ?thesis by simp
next
  case (Some j)
  assume a: "docs_ok n m ps"
  then have "distinct (map p_threadId (delete_first (\<lambda>p. p_threadId p = j) ps))"
    by (simp add: docs_ok_def delete_first_distinct)
  with a Some show ?thesis
    using delete_first_subset[of "\<lambda>p. p_threadId p = j" ps] by (auto simp: docs_ok_def)
qed

lemma post_ids_ok_push:
  "post_ids_ok n m p \<Longrightarrow> post_ids_ok n (Suc m) (p\<lparr>comments := comments p @ [newComment m u c pa]\<rparr>)"
  by (fastforce simp: post_ids_ok_def newComment_def less_Suc_eq)

lemma post_ids_ok_replace:
  assumes "post_ids_ok n m p" and "c_id c' = j"
  shows "post_ids_ok n m (p\<lparr>comments := update_first (\<lambda>x. c_id x = j) (\<lambda>_. c') (comments p)\<rparr>)"
proof -
  have k: "map c_id (update_first (\<lambda>x. c_id x = j) (\<lambda>_. c') (comments p)) = map c_id (comments p)"
    by (rule update_first_map) (simp add: assms(2))
  have i: "c_id ` set (update_first (\<lambda>x. c_id x = j) (\<lambda>_. c') (comments p)) = c_id ` set (comments p)"
    using arg_cong[OF k, of set] by simp
  have "\<forall>c \<in> set (update_first (\<lambda>x. c_id x = j) (\<lambda>_. c') (comments p)). c_id c < m"
  proof
    fix c assume "c \<in> set (update_first (\<lambda>x. c_id x = j) (\<lambda>_. c') (comments p))"
    then have "c_id c \<in> c_id ` set (comments p)" using i by blast
    then show "c_id c < m" using assms(1) by (auto simp: post_ids_ok_def)
  qed
  with assms(1) k show ?thesis
    by (simp add: post_ids_ok_def)
qed

lemma post_ids_ok_originalPost:
  "post_ids_ok n m p \<Longrightarrow> post_ids_ok n m (p\<lparr>originalPost := x\<rparr>)"
  by (simp add: post_ids_ok_def)

lemma docs_ok_Suc_oid: "docs_ok n m ps \<Longrightarrow> docs_ok n (Suc m) ps"
  by (erule docs_ok_mono) simp_all

lemma docs_ok_Suc_uuid: "docs_ok n m ps \<Longrightarrow> docs_ok (Suc n) m ps"
  by (erule docs_ok_mono) simp_all

lemma docs_ok_push:
  assumes "docs_ok n m ps" and "findOne i ps = Some p"
  shows "docs_ok n (Suc m) (save (p\<lparr>comments := comments p @ [newComment m u c pa]\<rparr>) ps)"
proof (rule docs_ok_save)
  show "docs_ok n (Suc m) ps" using assms(1) by (rule docs_ok_Suc_oid)
  show "post_ids_ok n (Suc m) (p\<lparr>comments := comments p @ [newComment m u c pa]\<rparr>)"
    using docs_ok_findOne[OF assms] by (rule post_ids_ok_push)
qed

lemma docs_ok_replace:
  assumes "docs_ok n m ps" and "findOne i ps = Some p" and "c_id c' = j"
  shows "docs_ok n m (save (p\<lparr>comments := update_first (\<lambda>x. c_id x = j) (\<lambda>_. c') (comments p)\<rparr>) ps)"
  using assms(1) post_ids_ok_replace[OF docs_ok_findOne[OF assms(1,2)] assms(3)]
  by (rule docs_ok_save)

lemma docs_ok_original:
  assumes "docs_ok n m ps" and "findOne i ps = Some p"
  shows "docs_ok n m (save (p\<lparr>originalPost := x\<rparr>) ps)"
  using assms(1) post_ids_ok_originalPost[OF docs_ok_findOne[OF assms]]
  by (rule docs_ok_save)

lemma createComment_ids: "ids_ok s \<Longrightarrow> ids_ok (snd (createComment e u i c pa s))"
  by (auto simp: ids_ok_def createComment_def createComment_push_def createComment_count_def
        Let_def bump_reply_def
      intro!: rows_below_update docs_ok_push
      split: option.splits id_text.splits)

lemma updateComment_ids: "ids_ok s \<Longrightarrow> ids_ok (snd (updateComment e u i j x s))"
  by (auto simp: ids_ok_def updateComment_def Let_def editComment_def
      intro!: docs_ok_replace
      dest: comments_id_mem
      split: option.splits)

lemma deleteComment_ids: "ids_ok s \<Longrightarrow> ids_ok (snd (deleteComment e u i j s))"
  by (auto simp: ids_ok_def deleteComment_def deleteComment_count_def Let_def tombstone_def
        drop_reply_def
      intro!: rows_below_update docs_ok_replace
      dest: comments_id_mem
      split: option.splits)

lemma upvoteThread_ids: "ids_ok s \<Longrightarrow> ids_ok (snd (upvoteThread e u i s))"
  by (auto simp: ids_ok_def upvoteThread_def toggleUpvote_def Let_def
      intro!: docs_ok_original
      split: option.splits)

lemma upvoteComment_ids: "ids_ok s \<Longrightarrow> ids_ok (snd (upvoteComment e u i j s))"
  by (auto simp: ids_ok_def upvoteComment_def Let_def
      intro!: docs_ok_replace
      dest: comments_id_mem
      split: option.splits)

lemma updateThread_ids: "ids_ok s \<Longrightarrow> ids_ok (snd (updateThread e u i t c ts s))"
  by (auto simp: ids_ok_def updateThread_def updateThread_post_def
      intro!: rows_below_update docs_ok_updateFields
      split: option.splits)

lemma deleteThread_ids: "ids_ok s \<Longrightarrow> ids_ok (snd (deleteThread e i s))"
  using docs_ok_deleteOne[of "uuid_gen s" "oid_gen s" "posts s" "Some i"]
  by (auto simp: ids_ok_def deleteThread_def Let_def rows_below_filter split: option.splits)

lemma pinThread_ids: "ids_ok s \<Longrightarrow> ids_ok (snd (pinThread e i s))"
  by (auto simp: ids_ok_def pinThread_def intro!: rows_below_update split: option.splits)

lemma lockThread_ids: "ids_ok s \<Longrightarrow> ids_ok (snd (lockThread e i s))"
  by (auto simp: ids_ok_def lockThread_def intro!: rows_below_update split: option.splits)

lemma getThread_ids: "ids_ok s \<Longrightarrow> ids_ok (snd (getThread e sl s))"
  by (auto simp: ids_ok_def getThread_def Let_def intro!: rows_below_update split: option.splits)

lemma createThread_ids:
  assumes "ids_ok s"
  shows "ids_ok (snd (createThread e u t c cat ts s))"
proof -
  let ?n = "uuid_gen s" and ?m = "oid_gen s"
  let ?doc = "newPost (uuid_gen s) u c ts"
  have r: "rows_below (Suc ?n) (threads s)"
    using assms by (simp add: ids_ok_def rows_below_Suc)
  have r': "rows_below (Suc ?n) (threads s @ [newThread e ?n u t cat])"
    using assms by (simp add: ids_ok_def rows_below_append newThread_def)
  have d: "docs_ok ?n ?m (posts s)"
    using assms by (simp add: ids_ok_def)
  have d1: "docs_ok (Suc ?n) ?m (posts s)"
    using d by (rule docs_ok_Suc_uuid)
  have d2: "docs_ok (Suc ?n) ?m (posts s @ [?doc])"
    using d by (rule docs_ok_append)
  have d3: "docs_ok (Suc ?n) ?m (deleteOne (Some ?n) (posts s))"
    using d1 by (rule docs_ok_deleteOne)
  have d4: "docs_ok (Suc ?n) ?m (deleteOne (Some ?n) (posts s @ [?doc]))"
    using d2 by (rule docs_ok_deleteOne)
  from createThread_effect[of e u t c cat ts s] assms r r' d1 d2 d3 d4 show ?thesis
    by (auto simp: ids_ok_def simp del: deleteOne.simps)
qed

lemma handle_ids: "ids_ok s \<Longrightarrow> ids_ok (snd (handle e r s))"
  by (cases r)
    (simp_all add: createComment_ids deleteComment_ids updateComment_ids
      upvoteThread_ids upvoteComment_ids createThread_ids updateThread_ids
      deleteThread_ids pinThread_ids lockThread_ids getThread_ids)

lemma run_ids: "ids_ok s \<Longrightarrow> ids_ok (run rs s)"
proof (induction rs arbitrary: s)
  case Nil
  then show ?case by simp
next
  case (Cons a rs)
  then show ?case by (cases a) (simp add: handle_ids)
qed

lemma reachable_ids: "reachable s \<Longrightarrow> ids_ok s"
proof (induction rule: reachable.induct)
  case (initial cs)
  then show ?case by (simp add: ids_ok_def rows_below_def docs_ok_def)
next
  case (category s cs)
  then show ?case by (simp add: ids_ok_def)
next
  case (handled s e r)
  then show ?case by (simp add: handle_ids)
qed

lemma ids_ok_fresh_post: "ids_ok s \<Longrightarrow> find (\<lambda>p. p_threadId p = uuid_gen s) (posts s) = None"
  by (auto simp: ids_ok_def docs_ok_def post_ids_ok_def find_None_iff)

subsection \<open>Tombstones\<close>

lemma doc_entombed_push:
  "doc_entombed j p \<Longrightarrow> m \<noteq> j \<Longrightarrow> doc_entombed j (p\<lparr>comments := comments p @ [newComment m u c pa]\<rparr>)"
  by (auto simp: doc_entombed_def newComment_def)

lemma doc_entombed_live:
  "doc_entombed j p \<Longrightarrow> comments_id k (comments p) = Some c \<Longrightarrow> \<not> c_isDeleted c \<Longrightarrow> k \<noteq> j"
  by (auto simp: doc_entombed_def dest: comments_id_mem)

lemma doc_entombed_replace:
  assumes "doc_entombed j p" and "comments_id k (comments p) = Some c" and "\<not> c_isDeleted c"
    and "c_id c' = k"
  shows "doc_entombed j (p\<lparr>comments := update_first (\<lambda>x. c_id x = k) (\<lambda>_. c') (comments p)\<rparr>)"
proof -
  have kj: "k \<noteq> j" using assms(1-3) by (rule doc_entombed_live)
  have m: "map c_id (update_first (\<lambda>x. c_id x = k) (\<lambda>_. c') (comments p)) = map c_id (comments p)"
    by (rule update_first_map) (simp add: assms(4))
  have i: "c_id ` set (update_first (\<lambda>x. c_id x = k) (\<lambda>_. c') (comments p)) = c_id ` set (comments p)"
    using arg_cong[OF m, of set] by simp
  have "\<forall>x \<in> set (update_first (\<lambda>x. c_id x = k) (\<lambda>_. c') (comments p)).
          c_id x = j \<longrightarrow> c_isDeleted x \<and> c_content x = ''[deleted]''"
  proof (rule update_first_all)
    show "\<forall>x \<in> set (comments p). c_id x = j \<longrightarrow> c_isDeleted x \<and> c_content x = ''[deleted]''"
      using assms(1) by (simp add: doc_entombed_def)
    show "\<And>x. x \<in> set (comments p) \<Longrightarrow> c_id x = k \<Longrightarrow>
        c_id c' = j \<longrightarrow> c_isDeleted c' \<and> c_content c' = ''[deleted]''"
      using kj assms(4) by simp
  qed
  with i assms(1) show ?thesis by (simp add: doc_entombed_def)
qed

lemma doc_entombed_originalPost: "doc_entombed j (p\<lparr>originalPost := x\<rparr>) = doc_entombed j p"
  by (simp add: doc_entombed_def)

lemma doc_entombed_updateFields: "doc_entombed j (updateFields t c ts p) = doc_entombed j p"
  by (auto simp: doc_entombed_def updateFields_def Let_def split: option.splits)

lemma updateFields_threadId [simp]: "p_threadId (updateFields t c ts p) = p_threadId p"
  by (auto simp: updateFields_def Let_def split: option.splits)

lemma thread_entombed_save:
  assumes "thread_entombed i j ps" and "p_threadId q = i \<longrightarrow> doc_entombed j q"
  shows "thread_entombed i j (save q ps)"
proof -
  have "\<forall>x \<in> set (update_first (\<lambda>x. p_threadId x = p_threadId q) (\<lambda>_. q) ps).
          p_threadId x = i \<longrightarrow> doc_entombed j x"
    using assms by (intro update_first_all) (auto simp: thread_entombed_def)
  then show ?thesis by (simp add: thread_entombed_def save_def)
qed

lemma thread_entombed_findOne:
  "thread_entombed i j ps \<Longrightarrow> findOne k ps = Some p \<Longrightarrow> p_threadId p = i \<longrightarrow> doc_entombed j p"
  by (auto simp: thread_entombed_def dest: findOne_mem)

lemma thread_entombed_push:
  assumes "thread_entombed i j ps" and "findOne k ps = Some p" and "m \<noteq> j"
  shows "thread_entombed i j (save (p\<lparr>comments := comments p @ [newComment m u c pa]\<rparr>) ps)"
  using assms(1) thread_entombed_findOne[OF assms(1,2)] assms(3)
  by (intro thread_entombed_save) (auto simp: doc_entombed_push)

lemma thread_entombed_replace:
  assumes "thread_entombed i j ps" and "findOne k ps = Some p"
    and "comments_id l (comments p) = Some c" and "\<not> c_isDeleted c" and "c_id c' = l"
  shows "thread_entombed i j
           (save (p\<lparr>comments := update_first (\<lambda>x. c_id x = l) (\<lambda>_. c') (comments p)\<rparr>) ps)"
  using assms(1) thread_entombed_findOne[OF assms(1,2)] assms(3-5)
  by (intro thread_entombed_save) (auto simp: doc_entombed_replace)

lemma thread_entombed_original:
  assumes "thread_entombed i j ps" and "findOne k ps = Some p"
  shows "thread_entombed i j (save (p\<lparr>originalPost := x\<rparr>) ps)"
  using assms(1) thread_entombed_findOne[OF assms(1,2)]
  by (intro thread_entombed_save) (auto simp: doc_entombed_originalPost)

lemma thread_entombed_updateFields:
  assumes "thread_entombed i j ps"
  shows "thread_entombed i j (update_first P (updateFields t c ts) ps)"
proof -
  have "\<forall>x \<in> set (update_first P (updateFields t c ts) ps). p_threadId x = i \<longrightarrow> doc_entombed j x"
    using assms by (intro update_first_all) (auto simp: thread_entombed_def doc_entombed_updateFields)
  then show ?thesis by (simp add: thread_entombed_def)
qed

lemma thread_entombed_append:
  "thread_entombed i j ps \<Longrightarrow> i < n \<Longrightarrow> thread_entombed i j (ps @ [newPost n u c ts])"
  by (auto simp: thread_entombed_def newPost_def)

lemma thread_entombed_deleteOne: "thread_entombed i j ps \<Longrightarrow> thread_entombed i j (deleteOne k ps)"
  using deleteOne_subset[of k ps] by (auto simp: thread_entombed_def)

lemma entombed_alt:
  "entombed i j s = (i < uuid_gen s \<and> j < oid_gen s \<and> thread_entombed i j (posts s))"
  by (simp add: entombed_def thread_entombed_def)

lemma createComment_entombed: "entombed i j s \<Longrightarrow> entombed i j (snd (createComment e u k c pa s))"
  by (auto simp: entombed_alt createComment_def createComment_push_def createComment_count_def
        Let_def
      intro!: thread_entombed_push split: option.splits id_text.splits)

lemma updateComment_entombed: "entombed i j s \<Longrightarrow> entombed i j (snd (updateComment e u k l x s))"
  by (auto simp: entombed_alt updateComment_def Let_def editComment_def
      intro!: thread_entombed_replace dest: comments_id_mem split: option.splits)

lemma deleteComment_entombed: "entombed i j s \<Longrightarrow> entombed i j (snd (deleteComment e u k l s))"
  by (auto simp: entombed_alt deleteComment_def deleteComment_count_def Let_def tombstone_def
      intro!: thread_entombed_replace dest: comments_id_mem split: option.splits)

lemma upvoteThread_entombed: "entombed i j s \<Longrightarrow> entombed i j (snd (upvoteThread e u k s))"
  by (auto simp: entombed_alt upvoteThread_def toggleUpvote_def Let_def
      intro!: thread_entombed_original split: option.splits)

lemma upvoteComment_entombed: "entombed i j s \<Longrightarrow> entombed i j (snd (upvoteComment e u k l s))"
  by (auto simp: entombed_alt upvoteComment_def Let_def
      intro!: thread_entombed_replace dest: comments_id_mem split: option.splits)

lemma updateThread_entombed: "entombed i j s \<Longrightarrow> entombed i j (snd (updateThread e u k t c ts s))"
  by (auto simp: entombed_alt updateThread_def updateThread_post_def
      intro!: thread_entombed_updateFields split: option.splits)

lemma deleteThread_entombed: "entombed i j s \<Longrightarrow> entombed i j (snd (deleteThread e k s))"
  using thread_entombed_deleteOne[of i j "posts s" "Some k"]
  by (auto simp: entombed_alt deleteThread_def Let_def split: option.splits)

lemma pinThread_entombed: "entombed i j s \<Longrightarrow> entombed i j (snd (pinThread e k s))"
  by (auto simp: entombed_alt pinThread_def split: option.splits)

lemma lockThread_entombed: "entombed i j s \<Longrightarrow> entombed i j (snd (lockThread e k s))"
  by (auto simp: entombed_alt lockThread_def split: option.splits)

lemma getThread_entombed: "entombed i j s \<Longrightarrow> entombed i j (snd (getThread e sl s))"
  by (auto simp: entombed_alt getThread_def Let_def split: option.splits)

lemma createThread_entombed:
  assumes "entombed i j s"
  shows "entombed i j (snd (createThread e u t c cat ts s))"
proof -
  let ?doc = "newPost (uuid_gen s) u c ts"
  have a: "thread_entombed i j (posts s)" and b: "i < uuid_gen s"
    using assms by (simp_all add: entombed_alt)
  have d2: "thread_entombed i j (posts s @ [?doc])"
    using a b by (rule thread_entombed_append)
  have d3: "thread_entombed i j (deleteOne (Some (uuid_gen s)) (posts s))"
    using a by (rule thread_entombed_deleteOne)
  have d4: "thread_entombed i j (deleteOne (Some (uuid_gen s)) (posts s @ [?doc]))"
    using d2 by (rule thread_entombed_deleteOne)
  from createThread_effect[of e u t c cat ts s] assms a d2 d3 d4 show ?thesis
    by (auto simp: entombed_alt simp del: deleteOne.simps)
qed

lemma handle_entombed: "entombed i j s \<Longrightarrow> entombed i j (snd (handle e r s))"
  by (cases r)
    (simp_all add: createComment_entombed deleteComment_entombed updateComment_entombed
      upvoteThread_entombed upvoteComment_entombed createThread_entombed updateThread_entombed
      deleteThread_entombed pinThread_entombed lockThread_entombed getThread_entombed)

lemma run_entombed: "entombed i j s \<Longrightarrow> entombed i j (run rs s)"
proof (induction rs arbitrary: s)
  case Nil
  then show ?case by simp
next
  case (Cons a rs)
  then show ?case by (cases a) (simp add: handle_entombed)
qed

lemma entombed_comment:
  assumes "entombed i j s" and "findOne i (posts s) = Some p"
  shows "\<exists>c. comments_id j (comments p) = Some c \<and> c_isDeleted c \<and> c_content c = ''[deleted]''"
proof -
  have d: "doc_entombed j p"
    using assms findOne_mem[OF assms(2)] by (simp add: entombed_def thread_entombed_def)
  then obtain c where c: "comments_id j (comments p) = Some c"
    using comments_id_Some[of j "comments p"] by (auto simp: doc_entombed_def)
  with d comments_id_mem[OF c] show ?thesis by (auto simp: doc_entombed_def)
qed

lemma entombed_updateComment:
  assumes "entombed i j s"
  shows "\<exists>err. updateComment e u i j x s = (Inl err, s)
           \<and> (fails e FindPost = None \<longrightarrow> (\<exists>m. err = AppError m 404))"
proof (cases "findOne i (posts s)")
  case None
  then show ?thesis by (auto simp: updateComment_def split: option.splits)
next
  case (Some p)
  from entombed_comment[OF assms Some] Some show ?thesis
    by (auto simp: updateComment_def split: option.splits)
qed

lemma entombed_deleteComment:
  assumes "entombed i j s"
  shows "\<exists>err. deleteComment e u i j s = (Inl err, s)
           \<and> (fails e FindPost = None \<longrightarrow> (\<exists>m. err = AppError m 404))"
proof (cases "findOne i (posts s)")
  case None
  then show ?thesis by (auto simp: deleteComment_def split: option.splits)
next
  case (Some p)
  from entombed_comment[OF assms Some] Some show ?thesis
    by (auto simp: deleteComment_def split: option.splits)
qed

lemma deleteComment_entombs:
  assumes "ids_ok s" and "replied (deleteComment e u i j s)"
  shows "entombed i j (snd (deleteComment e u i j s))
     \<and> (\<exists>p. findOne i (posts (snd (deleteComment e u i j s))) = Some p)"
proof -
  from replied_Inr[OF assms(2)] obtain r where
    "deleteComment e u i j s = (Inr r, snd (deleteComment e u i j s))" by blast
  then obtain p c where p: "findOne i (posts s) = Some p"
    and c: "comments_id j (comments p) = Some c"
    and s': "snd (deleteComment e u i j s)
        = s\<lparr>posts := save (p\<lparr>comments := update_first (\<lambda>x. c_id x = j)
                                   (\<lambda>_. tombstone (now e) c) (comments p)\<rparr>) (posts s),
               threads := update_thread (now e) i drop_reply (threads s)\<rparr>"
    by (rule deleteComment_Inr)
  let ?cs = "update_first (\<lambda>x. c_id x = j) (\<lambda>_. tombstone (now e) c) (comments p)"
  let ?q = "p\<lparr>comments := ?cs\<rparr>"
  have d: "docs_ok (uuid_gen s) (oid_gen s) (posts s)"
    using assms(1) by (simp add: ids_ok_def)
  have pi: "post_ids_ok (uuid_gen s) (oid_gen s) p"
    using d p by (rule docs_ok_findOne)
  have ti: "p_threadId p = i" using p by (simp add: findOne_mem)
  have cj: "c \<in> set (comments p)" "c_id c = j" using c by (simp_all add: comments_id_mem)
  have i: "i < uuid_gen s" using pi ti by (simp add: post_ids_ok_def)
  have j: "j < oid_gen s" using pi cj by (auto simp: post_ids_ok_def)
  have m: "map c_id ?cs = map c_id (comments p)"
    by (rule update_first_map) (simp add: tombstone_def cj)
  have ids: "c_id ` set ?cs = c_id ` set (comments p)"
    using arg_cong[OF m, of set] by simp
  have q: "doc_entombed j ?q"
  proof -
    have "\<forall>y \<in> set ?cs. c_id y = j \<longrightarrow> c_isDeleted y \<and> c_content y = ''[deleted]''"
    proof (intro ballI impI)
      fix y assume "y \<in> set ?cs" and "c_id y = j"
      with pi have "\<exists>x \<in> set (comments p). c_id x = j \<and> y = tombstone (now e) c"
        using update_first_unique[of c_id "comments p" y j "\<lambda>_. tombstone (now e) c"]
        by (simp add: post_ids_ok_def)
      then show "c_isDeleted y \<and> c_content y = ''[deleted]''"
        by (auto simp: tombstone_def)
    qed
    moreover have "j \<in> c_id ` set ?cs"
      using ids cj by auto
    ultimately show ?thesis by (simp add: doc_entombed_def)
  qed
  have "thread_entombed i j (save ?q (posts s))"
    unfolding thread_entombed_def
  proof (intro ballI impI)
    fix y assume "y \<in> set (save ?q (posts s))" and "p_threadId y = i"
    with d ti have "\<exists>x \<in> set (posts s). p_threadId x = i \<and> y = ?q"
      using update_first_unique[of p_threadId "posts s" y i "\<lambda>_. ?q"]
      by (simp add: docs_ok_def save_def)
    with q show "doc_entombed j y" by auto
  qed
  moreover have "findOne i (posts (snd (deleteComment e u i j s))) = Some ?q"
    using findOne_save[OF p, of ?q] ti by (simp add: s')
  ultimately show ?thesis
    using i j by (simp add: entombed_alt s')
qed

section \<open>The sample states\<close>

lemma hello_eq:
  "hello = \<lparr>categories = [''general'' \<mapsto> Active],
     threads = [newThread quiet 0 alice ''Hello World'' ''general''],
     posts = [newPost 0 alice ''A first post body'' None], uuid_gen = 1, oid_gen = 0\<rparr>"
  by (simp add: hello_def start_def quiet_def createThread_def createThread_try_def
        successResponse_def newThread_def Let_def)

lemma locked_eq:
  "locked = \<lparr>categories = [''general'' \<mapsto> Active],
     threads = [(newThread quiet 0 alice ''Hello World'' ''general'')\<lparr>is_locked := True\<rparr>],
     posts = [newPost 0 alice ''A first post body'' None], uuid_gen = 1, oid_gen = 0\<rparr>"
  by (simp add: locked_def hello_eq lockThread_def select_thread_def update_thread_def quiet_def
        newThread_def)

lemma reachable_run: "reachable s \<Longrightarrow> reachable (run rs s)"
proof (induction rs arbitrary: s)
  case Nil
  then show ?case by simp
next
  case (Cons a rs)
  then show ?case by (cases a) (simp add: reachable.handled)
qed

lemma reachable_start: "reachable start"
  unfolding start_def by (rule reachable.initial)

lemma reachable_hello: "reachable hello"
  unfolding hello_def by (rule reachable_run[OF reachable_start])

lemma reachable_talk: "reachable talk"
  unfolding talk_def by (rule reachable_run[OF reachable_hello])

lemma reachable_voted: "reachable voted"
  unfolding voted_def by (rule reachable_run[OF reachable_talk])

lemma reachable_buried: "reachable buried"
  unfolding buried_def by (rule reachable_run[OF reachable_talk])

lemma talk_eq:
  "talk = \<lparr>categories = [''general'' \<mapsto> Active],
     threads = [(newThread quiet 0 alice ''Hello World'' ''general'')
                 \<lparr>reply_count := 1, last_reply_at := Some 100, last_reply_by := Some ''u-bob''\<rparr>],
     posts = [(newPost 0 alice ''A first post body'' None)
                \<lparr>comments := [newComment 0 bob ''Hi'' None]\<rparr>],
     uuid_gen = 1, oid_gen = 1\<rparr>"
  by (simp add: talk_def hello_eq handler_defs store_defs sample_defs Let_def)

lemma voted_eq:
  "voted = \<lparr>categories = [''general'' \<mapsto> Active],
     threads = [(newThread quiet 0 alice ''Hello World'' ''general'')
                 \<lparr>reply_count := 1, last_reply_at := Some 100, last_reply_by := Some ''u-bob''\<rparr>],
     posts = [(newPost 0 alice ''A first post body'' None)
                \<lparr>originalPost := (originalPost (newPost 0 alice ''A first post body'' None))
                   \<lparr>op_upvotes := 1, op_upvotedBy := [''u-bob'']\<rparr>,
                 comments := [(newComment 0 bob ''Hi'' None)
                   \<lparr>c_upvotes := 1, c_upvotedBy := [''u-alice'']\<rparr>]\<rparr>],
     uuid_gen = 1, oid_gen = 1\<rparr>"
  by (simp add: voted_def talk_eq handler_defs store_defs sample_defs Let_def)

lemma buried_eq:
  "buried = \<lparr>categories = [''general'' \<mapsto> Active],
     threads = [(newThread quiet 0 alice ''Hello World'' ''general'')
                 \<lparr>reply_count := 0, last_reply_at := Some 100, last_reply_by := Some ''u-bob''\<rparr>],
     posts = [(newPost 0 alice ''A first post body'' None)
                \<lparr>comments := [tombstone 100 (newComment 0 bob ''Hi'' None)]\<rparr>],
     uuid_gen = 1, oid_gen = 1\<rparr>"
  by (simp add: buried_def talk_eq handler_defs store_defs sample_defs Let_def)

lemma voted_thread_twice:
  "replied (upvoteThread quiet bob 0 voted)
   \<and> replied (upvoteThread quiet bob 0 (snd (upvoteThread quiet bob 0 voted)))
   \<and> snd (upvoteThread quiet bob 0 (snd (upvoteThread quiet bob 0 voted))) = voted"
  by (simp add: voted_eq replied_def handler_defs store_defs sample_defs Let_def)

lemma voted_comment_twice:
  "replied (upvoteComment quiet bob 0 0 voted)
   \<and> replied (upvoteComment quiet bob 0 0 (snd (upvoteComment quiet bob 0 0 voted)))
   \<and> snd (upvoteComment quiet bob 0 0 (snd (upvoteComment quiet bob 0 0 voted))) = voted"
  by (simp add: voted_eq replied_def handler_defs store_defs sample_defs Let_def)

lemma bare_eq:
  "bare = \<lparr>categories = [''general'' \<mapsto> Active],
     threads = [newThread quiet 0 alice ''Hello World'' ''general''],
     posts = [], uuid_gen = 1, oid_gen = 0\<rparr>"
  by (simp add: bare_def hello_eq)

lemma hello_post: "findOne 0 (posts hello) = Some (newPost 0 alice ''A first post body'' None)"
  by (simp add: hello_eq findOne_def newPost_def)

lemma hello_thread:
  "select_thread 0 (threads hello) = Some (newThread quiet 0 alice ''Hello World'' ''general'')"
  by (simp add: hello_eq select_thread_def newThread_def)

lemma buried_thread:
  "select_thread 0 (threads buried)
     = Some ((newThread quiet 0 alice ''Hello World'' ''general'')
                 \<lparr>reply_count := 0, last_reply_at := Some 100, last_reply_by := Some ''u-bob''\<rparr>)"
  by (simp add: buried_eq select_thread_def newThread_def)

lemma chat_replied:
  "run_replied (two_adds @ one_delete) hello = Some (run (two_adds @ one_delete) hello)"
  by (simp add: hello_eq replied_def handler_defs store_defs sample_defs Let_def)

lemma chat_count:
  "reply_count (the (select_thread 0 (threads (run (two_adds @ one_delete) hello)))) = 1"
  by (simp add: hello_eq handler_defs store_defs sample_defs Let_def)

lemma talk_thread:
  "select_thread 0 (threads talk)
     = Some ((newThread quiet 0 alice ''Hello World'' ''general'')
                 \<lparr>reply_count := 1, last_reply_at := Some 100, last_reply_by := Some ''u-bob''\<rparr>)"
  by (simp add: talk_eq select_thread_def newThread_def)

lemma hello_add_replied: "replied (createComment quiet bob 0 ''Hi'' None hello)"
  by (simp add: hello_eq replied_def handler_defs store_defs sample_defs Let_def)

lemma talk_delete_replied: "replied (deleteComment quiet bob 0 0 talk)"
  by (simp add: talk_eq replied_def handler_defs store_defs sample_defs Let_def)

lemma hello_ids: "uuid_gen hello = 1" "categories hello ''general'' = Some Active"
  by (simp_all add: hello_eq)

lemma buried_run: "buried = snd (deleteComment quiet bob 0 0 talk)"
  by (simp add: buried_def)

lemma later_eq:
  "later = \<lparr>categories = [''general'' \<mapsto> Active],
     threads = [(newThread quiet 0 alice ''Hello World'' ''general'')
                 \<lparr>reply_count := 1, last_reply_at := Some 100, last_reply_by := Some ''u-carol''\<rparr>],
     posts = [(newPost 0 alice ''A first post body'' None)
                \<lparr>originalPost := (originalPost (newPost 0 alice ''A first post body'' None))
                   \<lparr>op_upvotes := 1, op_upvotedBy := [''u-carol'']\<rparr>,
                 comments := [tombstone 100 (newComment 0 bob ''Hi'' None),
                              newComment 1 carol ''Who said that?'' (Some 0)]\<rparr>],
     uuid_gen = 1, oid_gen = 2\<rparr>"
  by (simp add: later_def buried_eq handler_defs store_defs sample_defs Let_def)

section \<open>Creating a thread when the content write fails\<close>

text \<open>
  C1, as the code has it. Take a \<open>createThread\<close> call, from a state the portal can reach,
  whose \<open>INSERT\<close> went through, whose \<open>Post.create\<close> rejects with \<open>x\<close>, and whose
  \<open>ROLLBACK\<close> goes through. The call throws \<open>x\<close>. The table is what it was, with no row of
  the new id. The delete of the document is attempted and its rejection swallowed: the
  collection is what it was, except that the document stays behind, without a row, when the
  rejected write had reached the collection and the delete rejects too.
\<close>

theorem createThread_content_failure:
  assumes "reachable s"
    and "fails e SelectCategory = None" and "categories s categoryId = Some Active"
    and "fails e GetClient = None" and "fails e Begin = None" and "fails e InsertThread = None"
    and "fails e CreatePost = Some x"
    and "fails e Rollback = None"
  shows "fst (createThread e u title content categoryId tags s) = Inl (StoreError x)
     \<and> threads (snd (createThread e u title content categoryId tags s)) = threads s
     \<and> select_thread (uuid_gen s) (threads (snd (createThread e u title content categoryId tags s)))
         = None
     \<and> posts (snd (createThread e u title content categoryId tags s))
         = (if written e \<and> fails e DeletePost \<noteq> None
            then posts s @ [newPost (uuid_gen s) u content tags] else posts s)
     \<and> (\<not> written e \<or> fails e DeletePost = None \<longrightarrow>
          findOne (uuid_gen s) (posts (snd (createThread e u title content categoryId tags s)))
            = None)"
proof -
  have i: "ids_ok s" using assms(1) by (rule reachable_ids)
  note f = ids_ok_fresh_post[OF i]
  have d1: "delete_first (\<lambda>p. p_threadId p = uuid_gen s) (posts s) = posts s"
    using f by (rule delete_first_none)
  have d2: "delete_first (\<lambda>p. p_threadId p = uuid_gen s) (posts s @ [newPost (uuid_gen s) u content tags])
      = posts s"
    using f by (rule delete_first_append_fresh) (simp add: newPost_def)
  have t: "createThread_try e u title content categoryId tags s
      = Thrown x (Some (uuid_gen s))
          (if written e then posts s @ [newPost (uuid_gen s) u content tags] else posts s)"
    using assms(5-7) by (simp add: createThread_try_def Let_def newThread_def)
  have c: "createThread e u title content categoryId tags s
      = (Inl (StoreError x),
         s\<lparr>posts := (if written e \<and> fails e DeletePost \<noteq> None
                      then posts s @ [newPost (uuid_gen s) u content tags] else posts s),
           uuid_gen := Suc (uuid_gen s)\<rparr>)"
    using assms(2-4,8) d1 d2 by (auto simp: createThread_def t Let_def split: option.splits)
  show ?thesis
    using ids_ok_fresh_row[OF i] f by (auto simp: c findOne_def)
qed

theorem createThread_content_failure_witness:
  "reachable hello
   \<and> fails write_down SelectCategory = None \<and> categories hello ''general'' = Some Active
   \<and> fails write_down GetClient = None \<and> fails write_down Begin = None
   \<and> fails write_down InsertThread = None \<and> fails write_down CreatePost = Some boom
   \<and> fails write_down Rollback = None
   \<and> fst (createThread write_down bob ''Second thread'' ''Another post body'' ''general'' None hello)
       = Inl (StoreError boom)
   \<and> threads (snd (createThread write_down bob ''Second thread'' ''Another post body'' ''general''
         None hello)) = threads hello
   \<and> posts (snd (createThread write_down bob ''Second thread'' ''Another post body'' ''general''
         None hello)) = posts hello
   \<and> findOne 1 (posts (snd (createThread write_down bob ''Second thread'' ''Another post body''
         ''general'' None hello))) = None"
proof -
  have a: "fails write_down SelectCategory = None" "fails write_down GetClient = None"
    "fails write_down Begin = None" "fails write_down InsertThread = None"
    "fails write_down CreatePost = Some boom" "fails write_down Rollback = None"
    by (simp_all add: write_down_def)
  have w: "\<not> written write_down"
    by (simp add: write_down_def quiet_def)
  have h: "findOne (Suc 0) (posts hello) = None"
    by (simp add: hello_eq findOne_def newPost_def)
  note t = createThread_content_failure[OF reachable_hello a(1) hello_ids(2) a(2-6),
      of bob "''Second thread''" "''Another post body''" None]
  from t w have 1: "fst (createThread write_down bob ''Second thread'' ''Another post body'' ''general'' None hello)
       = Inl (StoreError boom)"
    and 2: "threads (snd (createThread write_down bob ''Second thread'' ''Another post body'' ''general''
         None hello)) = threads hello"
    and 3: "posts (snd (createThread write_down bob ''Second thread'' ''Another post body'' ''general''
         None hello)) = posts hello"
    and 4: "findOne 1 (posts (snd (createThread write_down bob ''Second thread'' ''Another post body''
         ''general'' None hello))) = None"
    by (simp_all add: hello_ids h)
  from reachable_hello a hello_ids(2) 1 2 3 4 show ?thesis by simp
qed

text \<open>
  C1, as stated, fails when the rejected write had reached the collection and the
  best-effort delete rejects too: the error is swallowed, and the document stays in the
  collection while the table has no row for it.
\<close>

theorem createThread_orphan_counterexample:
  "fails write_lost InsertThread = None \<and> fails write_lost CreatePost = Some boom
   \<and> fails write_lost Rollback = None
   \<and> fst (createThread write_lost bob ''Second thread'' ''Another post body'' ''general'' None hello)
       = Inl (StoreError boom)
   \<and> select_thread 1 (threads (snd (createThread write_lost bob ''Second thread''
         ''Another post body'' ''general'' None hello))) = None
   \<and> findOne 1 (posts (snd (createThread write_lost bob ''Second thread''
         ''Another post body'' ''general'' None hello)))
       = Some (newPost 1 bob ''Another post body'' None)"
  by (simp add: hello_eq createThread_def createThread_try_def Let_def write_lost_def quiet_def
      newThread_def newPost_def select_thread_def findOne_def)

section \<open>The reply counter follows the comments\<close>

text \<open>
  C2. A \<open>createComment\<close> call that replies adds one to the thread's \<open>reply_count\<close> and sets
  \<open>last_reply_at\<close> and \<open>last_reply_by\<close> to the clock and the caller. A \<open>deleteComment\<close>
  call that replies takes one off, stopping at zero, and leaves \<open>last_reply_at\<close> and
  \<open>last_reply_by\<close> as they were. Hence after \<open>N\<close> replying \<open>createComment\<close> calls followed by
  \<open>M\<close> replying \<open>deleteComment\<close> calls on a thread whose count was \<open>r\<close>, not negative, the
  count is \<open>max 0 (r + N - M)\<close>: \<open>max 0 (N - M)\<close> for a thread that started at zero, as
  \<open>createThread\<close> leaves it. No state the portal can reach holds a negative count, and no
  sequence of calls makes one.
\<close>

theorem reply_count_tracks_comments:
  "(replied (createComment e u i content parent s) \<and> select_thread i (threads s) = Some row \<longrightarrow>
      select_thread i (threads (snd (createComment e u i content parent s)))
        = Some (row\<lparr>reply_count := reply_count row + 1, last_reply_at := Some (now e),
                    last_reply_by := Some (u_id u), updated_at := now e\<rparr>))
   \<and> (replied (deleteComment e u i j s) \<and> select_thread i (threads s) = Some row \<longrightarrow>
      select_thread i (threads (snd (deleteComment e u i j s)))
        = Some (row\<lparr>reply_count := max (reply_count row - 1) 0, updated_at := now e\<rparr>))
   \<and> ((\<forall>x \<in> set adds. is_add i (snd x)) \<and> (\<forall>x \<in> set dels. is_delete i (snd x))
       \<and> select_thread i (threads s) = Some row \<and> 0 \<le> reply_count row
       \<and> run_replied (adds @ dels) s = Some s' \<longrightarrow>
      (\<exists>row'. select_thread i (threads s') = Some row'
         \<and> reply_count row' = max 0 (reply_count row + int (length adds) - int (length dels))
         \<and> (reply_count row = 0 \<longrightarrow>
              reply_count row' = max 0 (int (length adds) - int (length dels)))
         \<and> 0 \<le> reply_count row'))
   \<and> (reachable s \<longrightarrow> counts_ok (threads s))
   \<and> (counts_ok (threads s) \<longrightarrow> counts_ok (threads (run rs s)))"
proof (intro conjI impI)
  assume "replied (createComment e u i content parent s) \<and> select_thread i (threads s) = Some row"
  then show "select_thread i (threads (snd (createComment e u i content parent s)))
        = Some (row\<lparr>reply_count := reply_count row + 1, last_reply_at := Some (now e),
                    last_reply_by := Some (u_id u), updated_at := now e\<rparr>)"
    using createComment_row by blast
next
  assume "replied (deleteComment e u i j s) \<and> select_thread i (threads s) = Some row"
  then show "select_thread i (threads (snd (deleteComment e u i j s)))
        = Some (row\<lparr>reply_count := max (reply_count row - 1) 0, updated_at := now e\<rparr>)"
    using deleteComment_row by blast
next
  assume a: "(\<forall>x \<in> set adds. is_add i (snd x)) \<and> (\<forall>x \<in> set dels. is_delete i (snd x))
       \<and> select_thread i (threads s) = Some row \<and> 0 \<le> reply_count row
       \<and> run_replied (adds @ dels) s = Some s'"
  then obtain s1 where 1: "run_replied adds s = Some s1" and 2: "run_replied dels s1 = Some s'"
    using run_replied_append by blast
  from adds_count[OF 1] a obtain row1 where r1: "select_thread i (threads s1) = Some row1"
    and c1: "reply_count row1 = reply_count row + int (length adds)"
    by blast
  from c1 a have p: "0 \<le> reply_count row1" by simp
  from deletes_count[OF 2 _ r1 p] a obtain row' where r2: "select_thread i (threads s') = Some row'"
    and c2: "reply_count row' = max 0 (reply_count row1 - int (length dels))"
    by blast
  from r2 c2 c1 show "\<exists>row'. select_thread i (threads s') = Some row'
         \<and> reply_count row' = max 0 (reply_count row + int (length adds) - int (length dels))
         \<and> (reply_count row = 0 \<longrightarrow>
              reply_count row' = max 0 (int (length adds) - int (length dels)))
         \<and> 0 \<le> reply_count row'"
    by auto
next
  assume "reachable s"
  then show "counts_ok (threads s)" by (rule reachable_counts)
next
  assume "counts_ok (threads s)"
  then show "counts_ok (threads (run rs s))" by (rule run_counts)
qed

theorem reply_count_tracks_comments_witness:
  "replied (createComment quiet bob 0 ''Hi'' None hello)
   \<and> select_thread 0 (threads hello) = Some (newThread quiet 0 alice ''Hello World'' ''general'')
   \<and> select_thread 0 (threads (snd (createComment quiet bob 0 ''Hi'' None hello)))
       = Some ((newThread quiet 0 alice ''Hello World'' ''general'')
                 \<lparr>reply_count := 1, last_reply_at := Some (now quiet),
                   last_reply_by := Some ''u-bob'', updated_at := now quiet\<rparr>)
   \<and> replied (deleteComment quiet bob 0 0 talk)
   \<and> select_thread 0 (threads (snd (deleteComment quiet bob 0 0 talk)))
       = Some ((newThread quiet 0 alice ''Hello World'' ''general'')
                 \<lparr>reply_count := 0, last_reply_at := Some 100, last_reply_by := Some ''u-bob'',
                   updated_at := now quiet\<rparr>)
   \<and> run_replied (two_adds @ one_delete) hello = Some (run (two_adds @ one_delete) hello)
   \<and> reply_count (the (select_thread 0 (threads (run (two_adds @ one_delete) hello))))
       = max 0 (int (length two_adds) - int (length one_delete))
   \<and> reachable hello
   \<and> counts_ok (threads hello)
   \<and> counts_ok (threads (run two_adds hello))"
proof -
  note t = reply_count_tracks_comments[where e = quiet and u = bob and i = 0 and j = 0
      and content = "''Hi''" and parent = None and adds = two_adds and dels = one_delete
      and rs = two_adds]
  have r0: "reply_count (newThread quiet 0 alice ''Hello World'' ''general'') = 0"
    by (simp add: newThread_def)
  have ad: "(\<forall>x \<in> set two_adds. is_add 0 (snd x)) \<and> (\<forall>x \<in> set one_delete. is_delete 0 (snd x))"
    by (simp add: two_adds_def one_delete_def)
  from t[where s = hello and row = "newThread quiet 0 alice ''Hello World'' ''general''"]
    hello_add_replied hello_thread
  have 1: "select_thread 0 (threads (snd (createComment quiet bob 0 ''Hi'' None hello)))
       = Some ((newThread quiet 0 alice ''Hello World'' ''general'')
                 \<lparr>reply_count := 1, last_reply_at := Some (now quiet),
                   last_reply_by := Some ''u-bob'', updated_at := now quiet\<rparr>)"
    by (simp add: r0 bob_def)
  from t[where s = talk and row = "(newThread quiet 0 alice ''Hello World'' ''general'')
                 \<lparr>reply_count := 1, last_reply_at := Some 100, last_reply_by := Some ''u-bob''\<rparr>"]
    talk_delete_replied talk_thread
  have 2: "select_thread 0 (threads (snd (deleteComment quiet bob 0 0 talk)))
       = Some ((newThread quiet 0 alice ''Hello World'' ''general'')
                 \<lparr>reply_count := 0, last_reply_at := Some 100, last_reply_by := Some ''u-bob'',
                   updated_at := now quiet\<rparr>)"
    by simp
  from t[where s = hello and row = "newThread quiet 0 alice ''Hello World'' ''general''"
      and s' = "run (two_adds @ one_delete) hello"]
    ad hello_thread r0 chat_replied
  have 3: "reply_count (the (select_thread 0 (threads (run (two_adds @ one_delete) hello))))
       = max 0 (int (length two_adds) - int (length one_delete))"
    by auto
  from t[where s = hello] reachable_hello
  have 4: "counts_ok (threads hello)" "counts_ok (threads (run two_adds hello))"
    by simp_all
  from hello_add_replied hello_thread 1 talk_delete_replied 2 chat_replied 3 reachable_hello 4
  show ?thesis by simp
qed

section \<open>Vote counts and voter sets\<close>

text \<open>
  C3. In every state the portal can reach, each document's stored post count equals the
  size of its voter set (and the length of the voter list), and so does the count of each
  of its comments. Both vote handlers keep the invariant, from any state that has it.
\<close>

theorem upvotes_equal_voter_set_size:
  assumes "reachable s" and "p \<in> set (posts s)"
  shows "op_upvotes (originalPost p) = int (card (set (op_upvotedBy (originalPost p))))
     \<and> op_upvotes (originalPost p) = int (length (op_upvotedBy (originalPost p)))
     \<and> (\<forall>c \<in> set (comments p). c_upvotes c = int (card (set (c_upvotedBy c)))
            \<and> c_upvotes c = int (length (c_upvotedBy c)))
     \<and> (\<forall>e u i j t. all_votes_ok (posts t) \<longrightarrow>
            all_votes_ok (posts (snd (upvoteThread e u i t)))
            \<and> all_votes_ok (posts (snd (upvoteComment e u i j t))))"
proof -
  have "post_votes_ok p"
    using reachable_votes[OF assms(1)] assms(2) by (simp add: all_votes_ok_def)
  then show ?thesis
    by (auto simp: post_votes_ok_def upvoteThread_votes upvoteComment_votes dest: votes_ok_card)
qed

theorem upvotes_equal_voter_set_size_witness:
  "reachable voted
   \<and> hd (posts voted) \<in> set (posts voted)
   \<and> op_upvotes (originalPost (hd (posts voted))) = 1
   \<and> card (set (op_upvotedBy (originalPost (hd (posts voted))))) = 1
   \<and> c_upvotes (hd (comments (hd (posts voted)))) = 1
   \<and> card (set (c_upvotedBy (hd (comments (hd (posts voted)))))) = 1
   \<and> all_votes_ok (posts (snd (upvoteThread quiet carol 0 voted)))"
proof -
  have m: "hd (posts voted) \<in> set (posts voted)"
    by (simp add: voted_eq)
  have v: "all_votes_ok (posts voted)"
    by (rule reachable_votes[OF reachable_voted])
  have c: "hd (comments (hd (posts voted))) \<in> set (comments (hd (posts voted)))"
    by (simp add: voted_eq)
  have o: "op_upvotes (originalPost (hd (posts voted))) = 1"
    by (simp add: voted_eq)
  have k: "c_upvotes (hd (comments (hd (posts voted)))) = 1"
    by (simp add: voted_eq)
  from upvotes_equal_voter_set_size[OF reachable_voted m] v c o k reachable_voted m
  show ?thesis by (auto simp del: One_nat_def)
qed

section \<open>Toggling a vote twice\<close>

text \<open>
  C4. From a state the portal can reach, two \<open>upvoteThread\<close> calls in a row by the same
  voter on the same thread, both replying, leave the document as it was before the first
  call, up to the order of the voter list: the count is the old count and the voter set is
  the old set. The first call removed the voter and took one off the count if the voter
  was listed, and otherwise listed the voter and added one. The same holds for two
  \<open>upvoteComment\<close> calls on the same comment.
\<close>

theorem toggle_twice_restores:
  assumes "reachable s"
  shows "(replied (upvoteThread e1 u i s)
          \<and> replied (upvoteThread e2 u i (snd (upvoteThread e1 u i s))) \<longrightarrow>
          (\<exists>p p1 vs. findOne i (posts s) = Some p
             \<and> findOne i (posts (snd (upvoteThread e1 u i s))) = Some p1
             \<and> (if u_id u \<in> set (op_upvotedBy (originalPost p))
                 then u_id u \<notin> set (op_upvotedBy (originalPost p1))
                      \<and> op_upvotes (originalPost p1) = op_upvotes (originalPost p) - 1
                 else u_id u \<in> set (op_upvotedBy (originalPost p1))
                      \<and> op_upvotes (originalPost p1) = op_upvotes (originalPost p) + 1)
             \<and> findOne i (posts (snd (upvoteThread e2 u i (snd (upvoteThread e1 u i s)))))
                 = Some (p\<lparr>originalPost := (originalPost p)\<lparr>op_upvotedBy := vs\<rparr>\<rparr>)
             \<and> set vs = set (op_upvotedBy (originalPost p))
             \<and> snd (upvoteThread e2 u i (snd (upvoteThread e1 u i s)))
                 = s\<lparr>posts := save (p\<lparr>originalPost := (originalPost p)\<lparr>op_upvotedBy := vs\<rparr>\<rparr>)
                                 (posts s)\<rparr>))
     \<and> (replied (upvoteComment e1 u i j s)
          \<and> replied (upvoteComment e2 u i j (snd (upvoteComment e1 u i j s))) \<longrightarrow>
          (\<exists>p c p1 c1 vs. findOne i (posts s) = Some p \<and> comments_id j (comments p) = Some c
             \<and> findOne i (posts (snd (upvoteComment e1 u i j s))) = Some p1
             \<and> comments_id j (comments p1) = Some c1
             \<and> (if u_id u \<in> set (c_upvotedBy c)
                 then u_id u \<notin> set (c_upvotedBy c1) \<and> c_upvotes c1 = c_upvotes c - 1
                 else u_id u \<in> set (c_upvotedBy c1) \<and> c_upvotes c1 = c_upvotes c + 1)
             \<and> findOne i (posts (snd (upvoteComment e2 u i j (snd (upvoteComment e1 u i j s)))))
                 = Some (p\<lparr>comments := update_first (\<lambda>x. c_id x = j)
                                          (\<lambda>_. c\<lparr>c_upvotedBy := vs\<rparr>) (comments p)\<rparr>)
             \<and> comments_id j (update_first (\<lambda>x. c_id x = j) (\<lambda>_. c\<lparr>c_upvotedBy := vs\<rparr>) (comments p))
                 = Some (c\<lparr>c_upvotedBy := vs\<rparr>)
             \<and> set vs = set (c_upvotedBy c)
             \<and> snd (upvoteComment e2 u i j (snd (upvoteComment e1 u i j s)))
                 = s\<lparr>posts := save (p\<lparr>comments := update_first (\<lambda>x. c_id x = j)
                                          (\<lambda>_. c\<lparr>c_upvotedBy := vs\<rparr>) (comments p)\<rparr>) (posts s)\<rparr>))"
proof (intro conjI impI)
  have v: "all_votes_ok (posts s)" by (rule reachable_votes[OF assms])
  {
    assume a: "replied (upvoteThread e1 u i s)
       \<and> replied (upvoteThread e2 u i (snd (upvoteThread e1 u i s)))"
    from a obtain r1 where 1: "upvoteThread e1 u i s = (Inr r1, snd (upvoteThread e1 u i s))"
      using replied_Inr by blast
    from a obtain r2 where 2: "upvoteThread e2 u i (snd (upvoteThread e1 u i s))
        = (Inr r2, snd (upvoteThread e2 u i (snd (upvoteThread e1 u i s))))"
      using replied_Inr by blast
    from upvoteThread_twice[OF v 1 2]
    show "\<exists>p p1 vs. findOne i (posts s) = Some p
             \<and> findOne i (posts (snd (upvoteThread e1 u i s))) = Some p1
             \<and> (if u_id u \<in> set (op_upvotedBy (originalPost p))
                 then u_id u \<notin> set (op_upvotedBy (originalPost p1))
                      \<and> op_upvotes (originalPost p1) = op_upvotes (originalPost p) - 1
                 else u_id u \<in> set (op_upvotedBy (originalPost p1))
                      \<and> op_upvotes (originalPost p1) = op_upvotes (originalPost p) + 1)
             \<and> findOne i (posts (snd (upvoteThread e2 u i (snd (upvoteThread e1 u i s)))))
                 = Some (p\<lparr>originalPost := (originalPost p)\<lparr>op_upvotedBy := vs\<rparr>\<rparr>)
             \<and> set vs = set (op_upvotedBy (originalPost p))
             \<and> snd (upvoteThread e2 u i (snd (upvoteThread e1 u i s)))
                 = s\<lparr>posts := save (p\<lparr>originalPost := (originalPost p)\<lparr>op_upvotedBy := vs\<rparr>\<rparr>)
                                 (posts s)\<rparr>"
      by blast
  }
  {
    assume a: "replied (upvoteComment e1 u i j s)
       \<and> replied (upvoteComment e2 u i j (snd (upvoteComment e1 u i j s)))"
    from a obtain r1 where 1: "upvoteComment e1 u i j s = (Inr r1, snd (upvoteComment e1 u i j s))"
      using replied_Inr by blast
    from a obtain r2 where 2: "upvoteComment e2 u i j (snd (upvoteComment e1 u i j s))
        = (Inr r2, snd (upvoteComment e2 u i j (snd (upvoteComment e1 u i j s))))"
      using replied_Inr by blast
    from upvoteComment_twice[OF v 1 2]
    show "\<exists>p c p1 c1 vs. findOne i (posts s) = Some p \<and> comments_id j (comments p) = Some c
             \<and> findOne i (posts (snd (upvoteComment e1 u i j s))) = Some p1
             \<and> comments_id j (comments p1) = Some c1
             \<and> (if u_id u \<in> set (c_upvotedBy c)
                 then u_id u \<notin> set (c_upvotedBy c1) \<and> c_upvotes c1 = c_upvotes c - 1
                 else u_id u \<in> set (c_upvotedBy c1) \<and> c_upvotes c1 = c_upvotes c + 1)
             \<and> findOne i (posts (snd (upvoteComment e2 u i j (snd (upvoteComment e1 u i j s)))))
                 = Some (p\<lparr>comments := update_first (\<lambda>x. c_id x = j)
                                          (\<lambda>_. c\<lparr>c_upvotedBy := vs\<rparr>) (comments p)\<rparr>)
             \<and> comments_id j (update_first (\<lambda>x. c_id x = j) (\<lambda>_. c\<lparr>c_upvotedBy := vs\<rparr>) (comments p))
                 = Some (c\<lparr>c_upvotedBy := vs\<rparr>)
             \<and> set vs = set (c_upvotedBy c)
             \<and> snd (upvoteComment e2 u i j (snd (upvoteComment e1 u i j s)))
                 = s\<lparr>posts := save (p\<lparr>comments := update_first (\<lambda>x. c_id x = j)
                                          (\<lambda>_. c\<lparr>c_upvotedBy := vs\<rparr>) (comments p)\<rparr>) (posts s)\<rparr>"
      by blast
  }
qed

theorem toggle_twice_restores_witness:
  "reachable voted
   \<and> replied (upvoteThread quiet bob 0 voted)
   \<and> replied (upvoteThread quiet bob 0 (snd (upvoteThread quiet bob 0 voted)))
   \<and> u_id bob \<in> set (op_upvotedBy (originalPost (the (findOne 0 (posts voted)))))
   \<and> u_id bob \<notin> set (op_upvotedBy (originalPost
          (the (findOne 0 (posts (snd (upvoteThread quiet bob 0 voted)))))))
   \<and> findOne 0 (posts (snd (upvoteThread quiet bob 0 (snd (upvoteThread quiet bob 0 voted)))))
       = findOne 0 (posts voted)
   \<and> replied (upvoteComment quiet bob 0 0 voted)
   \<and> replied (upvoteComment quiet bob 0 0 (snd (upvoteComment quiet bob 0 0 voted)))
   \<and> snd (upvoteComment quiet bob 0 0 (snd (upvoteComment quiet bob 0 0 voted))) = voted"
proof -
  have f: "findOne 0 (posts voted) = Some (hd (posts voted))"
    by (simp add: voted_eq findOne_def newPost_def)
  have m: "u_id bob \<in> set (op_upvotedBy (originalPost (hd (posts voted))))"
    by (simp add: voted_eq bob_def)
  from toggle_twice_restores[OF reachable_voted, where ?e1.0 = quiet and ?e2.0 = quiet and u = bob and i = 0 and j = 0]
    voted_thread_twice voted_comment_twice f m reachable_voted
  show ?thesis by auto
qed

section \<open>Tombstones are terminal\<close>

text \<open>
  C5. Let a \<open>deleteComment\<close> call reply, from a state the portal can reach. Right after it
  the comment is still found under its id in the thread's document, deleted, with the body
  \<open>[deleted]\<close>. After any further sequence of calls, in any environments, an
  \<open>updateComment\<close> or a \<open>deleteComment\<close> on that thread and comment id throws and leaves both
  stores as they are; the error is a 404 (NotFound) whenever the handler's own read of the
  collection goes through. As long as the thread's document exists, the comment is found in
  it under its id, deleted and with the placeholder body.
\<close>

theorem tombstone_is_terminal:
  assumes "reachable s" and "replied (deleteComment e u i j s)"
  shows "(\<exists>p c. findOne i (posts (snd (deleteComment e u i j s))) = Some p
            \<and> comments_id j (comments p) = Some c \<and> c_isDeleted c \<and> c_content c = ''[deleted]'')
     \<and> (\<exists>err. updateComment e' u' i j x (run rs (snd (deleteComment e u i j s)))
                 = (Inl err, run rs (snd (deleteComment e u i j s)))
            \<and> (fails e' FindPost = None \<longrightarrow> (\<exists>m. err = AppError m 404)))
     \<and> (\<exists>err. deleteComment e' u' i j (run rs (snd (deleteComment e u i j s)))
                 = (Inl err, run rs (snd (deleteComment e u i j s)))
            \<and> (fails e' FindPost = None \<longrightarrow> (\<exists>m. err = AppError m 404)))
     \<and> (\<forall>p. findOne i (posts (run rs (snd (deleteComment e u i j s)))) = Some p \<longrightarrow>
            (\<exists>c. comments_id j (comments p) = Some c \<and> c_isDeleted c
               \<and> c_content c = ''[deleted]''))"
proof -
  let ?s1 = "snd (deleteComment e u i j s)"
  have "ids_ok s" using assms(1) by (rule reachable_ids)
  from deleteComment_entombs[OF this assms(2)]
  have t1: "entombed i j ?s1" and "\<exists>p. findOne i (posts ?s1) = Some p"
    by simp_all
  then obtain p where p: "findOne i (posts ?s1) = Some p" by blast
  from entombed_comment[OF t1 p] p
  have a: "\<exists>p c. findOne i (posts ?s1) = Some p
            \<and> comments_id j (comments p) = Some c \<and> c_isDeleted c \<and> c_content c = ''[deleted]''"
    by blast
  have t2: "entombed i j (run rs ?s1)"
    using t1 by (rule run_entombed)
  from a entombed_updateComment[OF t2, of e' u' x] entombed_deleteComment[OF t2, of e' u']
    entombed_comment[OF t2]
  show ?thesis by blast
qed

theorem tombstone_is_terminal_witness:
  "reachable talk \<and> replied (deleteComment quiet bob 0 0 talk)
   \<and> c_content (the (comments_id 0 (comments (the (findOne 0 (posts buried)))))) = ''[deleted]''
   \<and> fails quiet FindPost = None
   \<and> updateComment quiet bob 0 0 ''I take it back'' later
       = (Inl (AppError ''Comment not found.'' 404), later)
   \<and> deleteComment quiet bob 0 0 later = (Inl (AppError ''Comment not found.'' 404), later)
   \<and> c_isDeleted (the (comments_id 0 (comments (the (findOne 0 (posts later))))))
   \<and> c_content (the (comments_id 0 (comments (the (findOne 0 (posts later)))))) = ''[deleted]''"
proof -
  have l: "later = run [(quiet, CreateComment carol 0 ''Who said that?'' (Some (WellFormed 0))),
                (quiet, UpvoteThread carol 0)] (snd (deleteComment quiet bob 0 0 talk))"
    by (simp only: later_def buried_run)
  have q: "fails quiet FindPost = None"
    by (simp add: quiet_def)
  have f: "findOne 0 (posts later) = Some (hd (posts later))"
    by (simp add: later_eq findOne_def newPost_def)
  have g: "findOne 0 (posts buried) = Some (hd (posts buried))"
    by (simp add: buried_eq findOne_def newPost_def)
  have c: "comments_id 0 (comments (hd (posts later))) = Some (tombstone 100 (newComment 0 bob ''Hi'' None))"
    "comments_id 0 (comments (hd (posts buried))) = Some (tombstone 100 (newComment 0 bob ''Hi'' None))"
    by (simp_all add: later_eq buried_eq comments_id_def newPost_def tombstone_def newComment_def)
  note t = tombstone_is_terminal[OF reachable_talk talk_delete_replied,
      where rs = "[(quiet, CreateComment carol 0 ''Who said that?'' (Some (WellFormed 0))),
                (quiet, UpvoteThread carol 0)]" and e' = quiet and u' = bob
        and x = "''I take it back''", folded l]
  from t q f c have 1: "updateComment quiet bob 0 0 ''I take it back'' later
       = (Inl (AppError ''Comment not found.'' 404), later)"
    by (auto simp: updateComment_def tombstone_def)
  from t q f c have 2: "deleteComment quiet bob 0 0 later
       = (Inl (AppError ''Comment not found.'' 404), later)"
    by (auto simp: deleteComment_def tombstone_def)
  from reachable_talk talk_delete_replied q f g c 1 2 show ?thesis
    by (simp add: tombstone_def)
qed

section \<open>Locked threads\<close>

text \<open>
  C6. On a thread whose row has \<open>is_locked\<close> set, \<open>createComment\<close> fails with the 403 error
  (Forbidden) whatever the caller's role, and leaves both stores as they were; in
  particular the comment sequence of the thread's document is unchanged. The row is the
  one the handler's own \<open>SELECT\<close> returns.
\<close>

theorem createComment_locked_forbidden:
  assumes "fails e SelectThread = None"
    and "select_thread threadId (threads s) = Some thread"
    and "is_locked thread"
  shows "createComment e \<lparr>u_id = uid, u_username = uname, u_role = rl\<rparr> threadId content parent s
           = (Inl (AppError ''Thread is locked. No new replies allowed.'' 403), s)"
  using assms by (simp add: createComment_def)

theorem createComment_locked_forbidden_witness:
  "fails quiet SelectThread = None
   \<and> select_thread 0 (threads locked)
       = Some ((newThread quiet 0 alice ''Hello World'' ''general'')\<lparr>is_locked := True\<rparr>)
   \<and> is_locked ((newThread quiet 0 alice ''Hello World'' ''general'')\<lparr>is_locked := True\<rparr>)
   \<and> createComment quiet \<lparr>u_id = ''u-carol'', u_username = ''carol'', u_role = Admin\<rparr> 0 ''Hi'' None locked
       = (Inl (AppError ''Thread is locked. No new replies allowed.'' 403), locked)"
proof -
  have a: "fails quiet SelectThread = None"
    by (simp add: quiet_def)
  have b: "select_thread 0 (threads locked)
       = Some ((newThread quiet 0 alice ''Hello World'' ''general'')\<lparr>is_locked := True\<rparr>)"
    by (simp add: locked_eq select_thread_def newThread_def)
  have c: "is_locked ((newThread quiet 0 alice ''Hello World'' ''general'')\<lparr>is_locked := True\<rparr>)"
    by simp
  from a b c createComment_locked_forbidden [OF a b c] show ?thesis
    by simp
qed

section \<open>Replies to a parent comment\<close>

text \<open>
  C7, as the code has it. Take a \<open>createComment\<close> call with a \<open>parentCommentId\<close>, on a thread
  that is not locked. If the thread has no row, the call fails with the 404 error
  \<open>Thread not found.\<close>, whatever the parent. If it has one and the \<open>parentCommentId\<close> is not
  the text of an ObjectId, the call throws the \<open>CastError\<close> and writes nothing, and the
  client receives status 400 with \<open>Invalid ID format.\<close>. If the \<open>parentCommentId\<close> is the
  text of an ObjectId that resolves to no comment of the thread's document, the call fails
  with a 404 error (NotFound) and writes nothing. When the id resolves, to a deleted comment
  or to a live one, and the later store calls go through, the call replies 201 with the new
  comment, whose parent is that id.
\<close>

theorem createComment_parent:
  assumes "fails e SelectThread = None"
    and "\<forall>thread. select_thread i (threads s) = Some thread \<longrightarrow> \<not> is_locked thread"
  shows "(select_thread i (threads s) = None \<longrightarrow>
            createComment e u i content parent s = (Inl (AppError ''Thread not found.'' 404), s))
     \<and> (select_thread i (threads s) \<noteq> None \<longrightarrow>
            createComment e u i content (Some Malformed) s = (Inl (StoreError castError), s)
            \<and> respond (fst (createComment e u i content (Some Malformed) s))
                = \<lparr>h_status = 400, h_success = False, h_message = ''Invalid ID format.'',
                   h_data = NoData\<rparr>)
     \<and> (fails e FindParent = None \<and> \<not> resolves i pid (posts s) \<longrightarrow>
            (\<exists>m. createComment e u i content (Some (WellFormed pid)) s = (Inl (AppError m 404), s)))
     \<and> (fails e FindParent = None \<and> resolves i pid (posts s)
          \<and> select_thread i (threads s) \<noteq> None
          \<and> fails e PushComment = None \<and> fails e UpdateCounter = None
          \<and> (\<forall>r \<in> set (threads s). t_id r = i \<longrightarrow> reply_count r + 1 \<le> int4_max) \<longrightarrow>
            fst (createComment e u i content (Some (WellFormed pid)) s)
              = Inr (successResponse (CommentData (newComment (oid_gen s) u content (Some pid)))
                       ''Comment added'' 201))"
proof (intro conjI impI)
  assume "select_thread i (threads s) = None"
  then show "createComment e u i content parent s = (Inl (AppError ''Thread not found.'' 404), s)"
    using assms(1) by (simp add: createComment_def)
next
  assume "select_thread i (threads s) \<noteq> None"
  then show m: "createComment e u i content (Some Malformed) s = (Inl (StoreError castError), s)"
    using assms by (auto simp: createComment_def)
  show "respond (fst (createComment e u i content (Some Malformed) s))
          = \<lparr>h_status = 400, h_success = False, h_message = ''Invalid ID format.'', h_data = NoData\<rparr>"
    by (simp add: m errorHandler_def castError_def Let_def)
next
  assume "fails e FindParent = None \<and> \<not> resolves i pid (posts s)"
  then have "findParent i pid (posts s) = None"
    by (simp add: findParent_resolves)
  then show "\<exists>m. createComment e u i content (Some (WellFormed pid)) s = (Inl (AppError m 404), s)"
    using assms \<open>fails e FindParent = None \<and> \<not> resolves i pid (posts s)\<close>
    by (cases "select_thread i (threads s)") (simp_all add: createComment_def)
next
  assume a: "fails e FindParent = None \<and> resolves i pid (posts s)
          \<and> select_thread i (threads s) \<noteq> None
          \<and> fails e PushComment = None \<and> fails e UpdateCounter = None
          \<and> (\<forall>r \<in> set (threads s). t_id r = i \<longrightarrow> reply_count r + 1 \<le> int4_max)"
  then obtain q where q: "findParent i pid (posts s) = Some q"
    using findParent_resolves[of i pid "posts s"] by auto
  then obtain p where p: "findOne i (posts s) = Some p"
    using findParent_findOne by blast
  from a have n: "\<not> (\<exists>r \<in> set (threads s). t_id r = i \<and> int4_max < reply_count r + 1)"
    by auto
  have c: "fst (createComment_push e u i content (Some pid) s)
              = Inr (successResponse (CommentData (newComment (oid_gen s) u content (Some pid)))
                       ''Comment added'' 201)"
    using a p n by (simp add: createComment_push_def createComment_count_def Let_def)
  show "fst (createComment e u i content (Some (WellFormed pid)) s)
              = Inr (successResponse (CommentData (newComment (oid_gen s) u content (Some pid)))
                       ''Comment added'' 201)"
  proof (cases "select_thread i (threads s)")
    case None
    with a show ?thesis by simp
  next
    case (Some thread)
    then show ?thesis
      using assms a q c by (simp add: createComment_def)
  qed
qed

theorem createComment_parent_witness:
  "fails quiet SelectThread = None \<and> fails quiet FindParent = None
   \<and> select_thread 0 (threads buried) \<noteq> None
   \<and> \<not> is_locked (the (select_thread 0 (threads buried)))
   \<and> createComment quiet carol 0 ''Who said that?'' (Some Malformed) buried
       = (Inl (StoreError castError), buried)
   \<and> respond (fst (createComment quiet carol 0 ''Who said that?'' (Some Malformed) buried))
       = \<lparr>h_status = 400, h_success = False, h_message = ''Invalid ID format.'', h_data = NoData\<rparr>
   \<and> \<not> resolves 0 7 (posts buried)
   \<and> createComment quiet carol 0 ''Who said that?'' (Some (WellFormed 7)) buried
       = (Inl (AppError ''Parent comment not found.'' 404), buried)
   \<and> resolves 0 0 (posts buried)
   \<and> c_isDeleted (the (comments_id 0 (comments (the (findOne 0 (posts buried))))))
   \<and> fails quiet PushComment = None \<and> fails quiet UpdateCounter = None
   \<and> fst (createComment quiet carol 0 ''Who said that?'' (Some (WellFormed 0)) buried)
       = Inr (successResponse (CommentData (newComment 1 carol ''Who said that?'' (Some 0)))
                ''Comment added'' 201)
   \<and> select_thread 5 (threads buried) = None
   \<and> createComment quiet carol 5 ''Who said that?'' (Some (WellFormed 0)) buried
       = (Inl (AppError ''Thread not found.'' 404), buried)"
proof -
  have a: "fails quiet SelectThread = None" "fails quiet FindParent = None"
    "fails quiet PushComment = None" "fails quiet UpdateCounter = None"
    by (simp_all add: quiet_def)
  have b: "\<forall>thread. select_thread 0 (threads buried) = Some thread \<longrightarrow> \<not> is_locked thread"
    by (simp add: buried_thread newThread_def)
  have c: "select_thread 0 (threads buried) \<noteq> None"
    "\<not> is_locked (the (select_thread 0 (threads buried)))"
    by (simp_all add: buried_thread newThread_def)
  have d: "\<not> resolves 0 7 (posts buried)" "resolves 0 0 (posts buried)"
    by (simp_all add: buried_eq resolves_def newPost_def tombstone_def newComment_def)
  have f: "c_isDeleted (the (comments_id 0 (comments (the (findOne 0 (posts buried))))))"
    by (simp add: buried_eq findOne_def comments_id_def newPost_def tombstone_def newComment_def)
  have g: "\<forall>r \<in> set (threads buried). t_id r = 0 \<longrightarrow> reply_count r + 1 \<le> int4_max"
    by (simp add: buried_eq int4_max_def)
  have o: "oid_gen buried = 1"
    by (simp add: buried_eq)
  have h: "select_thread 5 (threads buried) = None"
    by (simp add: buried_eq select_thread_def newThread_def)
  have k: "\<forall>thread. select_thread 5 (threads buried) = Some thread \<longrightarrow> \<not> is_locked thread"
    by (simp add: h)
  note t = createComment_parent[OF a(1) b, where u = carol and content = "''Who said that?''"]
  note t5 = createComment_parent[OF a(1) k, where u = carol and content = "''Who said that?''"
      and parent = "Some (WellFormed 0)", THEN conjunct1]
  have fp: "findParent 0 7 (posts buried) = None"
    using d(1) by (simp add: findParent_resolves)
  note m = t[THEN conjunct2, THEN conjunct1, THEN mp, OF c(1)]
  have 0: "createComment quiet carol 0 ''Who said that?'' (Some Malformed) buried
             = (Inl (StoreError castError), buried)"
    "respond (fst (createComment quiet carol 0 ''Who said that?'' (Some Malformed) buried))
       = \<lparr>h_status = 400, h_success = False, h_message = ''Invalid ID format.'', h_data = NoData\<rparr>"
    by (rule m[THEN conjunct1], rule m[THEN conjunct2])
  from t[where pid = 7] d(1) have 1: "createComment quiet carol 0 ''Who said that?'' (Some (WellFormed 7)) buried
       = (Inl (AppError ''Parent comment not found.'' 404), buried)"
    by (auto simp: createComment_def a fp buried_thread newThread_def)
  from t[where pid = 0] d(2) c(1) a(2,3,4) g o
  have 2: "fst (createComment quiet carol 0 ''Who said that?'' (Some (WellFormed 0)) buried)
       = Inr (successResponse (CommentData (newComment 1 carol ''Who said that?'' (Some 0)))
                ''Comment added'' 201)"
    by simp
  from t5 h have 3: "createComment quiet carol 5 ''Who said that?'' (Some (WellFormed 0)) buried
       = (Inl (AppError ''Thread not found.'' 404), buried)"
    by simp
  from a c d f h 0 1 2 3 show ?thesis by simp
qed

text \<open>
  C7, as stated, fails in two ways. On a locked thread the lock is tested before the
  parent, so a call whose parent id resolves to nothing fails with the 403 error, not with
  NotFound. On a thread that is not locked, a \<open>parentCommentId\<close> that is not the text of an
  ObjectId makes the lookup throw the \<open>CastError\<close>, and the client receives status 400, not
  NotFound.
\<close>

theorem createComment_parent_counterexample:
  "\<not> resolves 0 7 (posts locked)
   \<and> createComment quiet carol 0 ''Hi'' (Some (WellFormed 7)) locked
       = (Inl (AppError ''Thread is locked. No new replies allowed.'' 403), locked)
   \<and> select_thread 0 (threads hello) = Some (newThread quiet 0 alice ''Hello World'' ''general'')
   \<and> \<not> is_locked (newThread quiet 0 alice ''Hello World'' ''general'')
   \<and> createComment quiet carol 0 ''Hi'' (Some Malformed) hello = (Inl (StoreError castError), hello)
   \<and> respond (fst (createComment quiet carol 0 ''Hi'' (Some Malformed) hello))
       = \<lparr>h_status = 400, h_success = False, h_message = ''Invalid ID format.'', h_data = NoData\<rparr>"
  by (simp add: locked_eq hello_eq resolves_def createComment_def select_thread_def newThread_def
      newPost_def quiet_def errorHandler_def castError_def Let_def)

section \<open>A failed counter update\<close>

text \<open>
  C8, as the code has it. When the comment is pushed and the counter update then rejects
  (the store rejects it, or the count would leave \<open>INTEGER\<close>), \<open>createComment\<close> throws that
  error. The client receives the error handler's failure response, with \<open>success\<close> false
  and no comment in it; the comment stays in the document and the rows of \<open>threads\<close> are as
  they were.
\<close>

theorem createComment_counter_failure:
  assumes "fails e SelectThread = None"
    and "select_thread i (threads s) = Some thread" and "\<not> is_locked thread"
    and "parent = None \<or> (fails e FindParent = None \<and> resolves i (the parent) (posts s))"
    and "fails e PushComment = None" and "findOne i (posts s) = Some p"
    and "fails e UpdateCounter = Some x
         \<or> (fails e UpdateCounter = None \<and> x = out_of_range
             \<and> (\<exists>r \<in> set (threads s). t_id r = i \<and> int4_max < reply_count r + 1))"
  shows "createComment e u i content (map_option WellFormed parent) s =
           (Inl (StoreError x),
            s\<lparr>posts := save (p\<lparr>comments := comments p @ [newComment (oid_gen s) u content parent]\<rparr>)
                           (posts s),
              oid_gen := Suc (oid_gen s)\<rparr>)
     \<and> respond (fst (createComment e u i content (map_option WellFormed parent) s))
         = errorHandler (StoreError x)
     \<and> \<not> h_success (errorHandler (StoreError x))
     \<and> h_data (errorHandler (StoreError x)) = NoData"
proof -
  have c: "createComment_count e u i (newComment (oid_gen s) u content parent)
             (s\<lparr>posts := save (p\<lparr>comments := comments p @ [newComment (oid_gen s) u content parent]\<rparr>)
                           (posts s),
              oid_gen := Suc (oid_gen s)\<rparr>)
           = (Inl (StoreError x),
              s\<lparr>posts := save (p\<lparr>comments := comments p @ [newComment (oid_gen s) u content parent]\<rparr>)
                           (posts s),
              oid_gen := Suc (oid_gen s)\<rparr>)"
    using assms(7) by (auto simp: createComment_count_def)
  have p: "createComment_push e u i content parent s
           = (Inl (StoreError x),
              s\<lparr>posts := save (p\<lparr>comments := comments p @ [newComment (oid_gen s) u content parent]\<rparr>)
                           (posts s),
              oid_gen := Suc (oid_gen s)\<rparr>)"
    using assms(5,6) c by (simp add: createComment_push_def Let_def)
  have "createComment e u i content (map_option WellFormed parent) s
          = createComment_push e u i content parent s"
    using assms(1-4)
    by (auto simp: createComment_def findParent_resolves split: option.splits)
  with p show ?thesis
    by (simp add: errorHandler_def Let_def)
qed

theorem createComment_counter_failure_witness:
  "fails counter_down SelectThread = None
   \<and> select_thread 0 (threads hello) = Some (newThread quiet 0 alice ''Hello World'' ''general'')
   \<and> \<not> is_locked (newThread quiet 0 alice ''Hello World'' ''general'')
   \<and> fails counter_down PushComment = None
   \<and> findOne 0 (posts hello) = Some (newPost 0 alice ''A first post body'' None)
   \<and> fails counter_down UpdateCounter = Some boom
   \<and> fst (createComment counter_down bob 0 ''Hi'' None hello) = Inl (StoreError boom)
   \<and> posts (snd (createComment counter_down bob 0 ''Hi'' None hello))
       = [(newPost 0 alice ''A first post body'' None)\<lparr>comments := [newComment 0 bob ''Hi'' None]\<rparr>]
   \<and> threads (snd (createComment counter_down bob 0 ''Hi'' None hello)) = threads hello"
proof -
  have a: "fails counter_down SelectThread = None"
    by (simp add: counter_down_def)
  have b: "\<not> is_locked (newThread quiet 0 alice ''Hello World'' ''general'')"
    by (simp add: newThread_def)
  have c: "None = None \<or> (fails counter_down FindParent = None \<and> resolves 0 (the None) (posts hello))"
    by simp
  have d: "fails counter_down PushComment = None"
    by (simp add: counter_down_def)
  have f: "fails counter_down UpdateCounter = Some boom
         \<or> (fails counter_down UpdateCounter = None \<and> boom = out_of_range
             \<and> (\<exists>r \<in> set (threads hello). t_id r = 0 \<and> int4_max < reply_count r + 1))"
    by (simp add: counter_down_def)
  have g: "fails counter_down UpdateCounter = Some boom"
    by (simp add: counter_down_def)
  note t = createComment_counter_failure[OF a hello_thread b c d hello_post f, of bob "''Hi''",
      THEN conjunct1]
  from t have 1: "fst (createComment counter_down bob 0 ''Hi'' None hello) = Inl (StoreError boom)"
    by simp
  from t have 2: "posts (snd (createComment counter_down bob 0 ''Hi'' None hello))
       = [(newPost 0 alice ''A first post body'' None)\<lparr>comments := [newComment 0 bob ''Hi'' None]\<rparr>]"
    by (simp add: hello_eq save_def newPost_def)
  from t have 3: "threads (snd (createComment counter_down bob 0 ''Hi'' None hello)) = threads hello"
    by simp
  from a hello_thread b d hello_post g 1 2 3 show ?thesis by simp
qed

text \<open>
  C8, as stated, fails: the response to a call whose comment was written and whose counter
  update rejected is the response to a call that wrote nothing because its push rejected
  with the same error. It is a plain failure (status 500, \<open>success\<close> false, no payload), so
  the caller cannot tell the two apart, although the first call left its comment in the
  document and the second left the document untouched.
\<close>

theorem createComment_drift_counterexample:
  "respond (fst (createComment counter_down bob 0 ''Hi'' None hello))
     = respond (fst (createComment push_down bob 0 ''Hi'' None hello))
   \<and> respond (fst (createComment counter_down bob 0 ''Hi'' None hello))
       = \<lparr>h_status = 500, h_success = False,
          h_message = ''Connection terminated unexpectedly'', h_data = NoData\<rparr>
   \<and> posts (snd (createComment counter_down bob 0 ''Hi'' None hello))
       = [(newPost 0 alice ''A first post body'' None)\<lparr>comments := [newComment 0 bob ''Hi'' None]\<rparr>]
   \<and> posts (snd (createComment push_down bob 0 ''Hi'' None hello)) = posts hello"
  by (simp add: hello_eq handler_defs store_defs sample_defs errorHandler_def Let_def)

section \<open>Editing a thread whose document is missing\<close>

text \<open>
  C10. When the row of the thread exists, the caller is its author or a moderator or
  admin, and the collection holds no document of the thread, \<open>updateThread\<close> replies 200
  with \<open>post\<close> null. A title that is given (and not empty) is written to the row, and the
  reply carries it; the collection is left as it was.
\<close>

theorem updateThread_without_document:
  assumes "fails e SelectThread = None" and "fails e UpdateTitle = None"
    and "fails e UpdatePost = None"
    and "select_thread i (threads s) = Some thread"
    and "t_author_id thread = u_id u \<or> isMod u"
    and "findOne i (posts s) = None"
  shows "updateThread e u i title content tags s =
           (Inr (successResponse
                   (ThreadUpdated (t_id thread) (t_author_id thread)
                      (if truthy title then the title else t_title thread) None)
                   ''Thread updated'' 200),
            if truthy title
            then s\<lparr>threads := update_thread (now e) i (\<lambda>r. r\<lparr>t_title := the title\<rparr>) (threads s)\<rparr>
            else s)
     \<and> (truthy title \<longrightarrow>
          select_thread i (threads (snd (updateThread e u i title content tags s)))
            = Some (thread\<lparr>t_title := the title, updated_at := now e\<rparr>))"
proof -
  have i: "t_id thread = i"
    using assms(4) by (simp add: select_thread_mem)
  have r: "select_thread i (update_thread (now e) i (\<lambda>r. r\<lparr>t_title := the title\<rparr>) (threads s))
             = Some (thread\<lparr>t_title := the title, updated_at := now e\<rparr>)"
    using select_thread_update[OF assms(4), of "\<lambda>r. r\<lparr>t_title := the title\<rparr>" "now e"] i by simp
  have 1: "updateThread e u i title content tags s =
           (Inr (successResponse
                   (ThreadUpdated (t_id thread) (t_author_id thread)
                      (if truthy title then the title else t_title thread) None)
                   ''Thread updated'' 200),
            if truthy title
            then s\<lparr>threads := update_thread (now e) i (\<lambda>r. r\<lparr>t_title := the title\<rparr>) (threads s)\<rparr>
            else s)"
    using assms by (auto simp: updateThread_def updateThread_post_def findOne_none_update)
  show ?thesis
    using r by (simp add: 1)
qed

theorem updateThread_without_document_witness:
  "fails quiet SelectThread = None \<and> fails quiet UpdateTitle = None
   \<and> fails quiet UpdatePost = None
   \<and> select_thread 0 (threads bare) = Some (newThread quiet 0 alice ''Hello World'' ''general'')
   \<and> isMod bob
   \<and> findOne 0 (posts bare) = None
   \<and> truthy (Some ''Hello again'')
   \<and> fst (updateThread quiet bob 0 (Some ''Hello again'') (Some ''A second post body'') None bare)
       = Inr (successResponse (ThreadUpdated 0 ''u-alice'' ''Hello again'' None) ''Thread updated'' 200)
   \<and> select_thread 0 (threads (snd (updateThread quiet bob 0 (Some ''Hello again'')
         (Some ''A second post body'') None bare)))
       = Some ((newThread quiet 0 alice ''Hello World'' ''general'')
                 \<lparr>t_title := ''Hello again'', updated_at := now quiet\<rparr>)"
proof -
  have a: "fails quiet SelectThread = None" "fails quiet UpdateTitle = None"
    "fails quiet UpdatePost = None"
    by (simp_all add: quiet_def)
  have b: "select_thread 0 (threads bare) = Some (newThread quiet 0 alice ''Hello World'' ''general'')"
    by (simp add: bare_eq select_thread_def newThread_def)
  have c: "t_author_id (newThread quiet 0 alice ''Hello World'' ''general'') = u_id bob \<or> isMod bob"
    by (simp add: isMod_def bob_def)
  have d: "findOne 0 (posts bare) = None"
    by (simp add: bare_eq findOne_def)
  have m: "isMod bob"
    by (simp add: isMod_def bob_def)
  note t = updateThread_without_document[OF a b c d, of "Some ''Hello again''"
      "Some ''A second post body''" None]
  from t[THEN conjunct1] have 1: "fst (updateThread quiet bob 0 (Some ''Hello again'') (Some ''A second post body'') None bare)
       = Inr (successResponse (ThreadUpdated 0 ''u-alice'' ''Hello again'' None) ''Thread updated'' 200)"
    by (simp add: newThread_def alice_def)
  from t[THEN conjunct2] have 2: "select_thread 0 (threads (snd (updateThread quiet bob 0 (Some ''Hello again'')
         (Some ''A second post body'') None bare)))
       = Some ((newThread quiet 0 alice ''Hello World'' ''general'')
                 \<lparr>t_title := ''Hello again'', updated_at := now quiet\<rparr>)"
    by simp
  from a b d m 1 2 show ?thesis by simp
qed

end
